theory Spec2Isabelle
  imports Main "HOL-Library.Word"
begin

section \<open>Python values used by the scraper\<close>

text \<open>
  A Python \<^verbatim>\<open>str\<close> is a sequence of Unicode code points, so a string is a list of
  natural numbers; \<open>ascii\<close> embeds the literals of the source. Captured documents are
  \<^verbatim>\<open>bytes\<close>.
\<close>

type_synonym pystr = "nat list"

type_synonym bytes = "8 word list"

definition ascii :: "string \<Rightarrow> pystr" where
  "ascii s = map of_char s"

text \<open>
  Exceptions are values. Only the distinction the source makes is kept: the handlers of
  \<^verbatim>\<open>process_row\<close> tell \<^verbatim>\<open>PlaywrightTimeoutError\<close> from every other
  \<^verbatim>\<open>Exception\<close>, and format the message with \<^verbatim>\<open>{e}\<close>. \<open>CsvError\<close> is
  the \<^verbatim>\<open>Error\<close> of the module \<^verbatim>\<open>csv\<close>.
\<close>

datatype exn_kind =
  ValueError | IndexError | PlaywrightTimeoutError | UnicodeDecodeError | CsvError | OtherException

datatype exn = Exn exn_kind pystr

fun exn_msg :: "exn \<Rightarrow> pystr" where
  "exn_msg (Exn k m) = m"

fun is_timeout :: "exn \<Rightarrow> bool" where
  "is_timeout (Exn k m) = (k = PlaywrightTimeoutError)"

text \<open>
  The character classes of the Python runtime come from the Unicode character database,
  which is not part of the repository. The model fixes them on ASCII, where they are
  \<^verbatim>\<open>[0-9A-Za-z]\<close>, \<^verbatim>\<open>[0-9]\<close> and the ASCII white space, and takes them
  above ASCII from a parameter.
\<close>

record unicode_db =
  uc_alnum :: "nat \<Rightarrow> bool"
  uc_digit :: "nat \<Rightarrow> bool"
  uc_decimal :: "nat \<Rightarrow> nat option"
  uc_space :: "nat \<Rightarrow> bool"

definition ascii_digit :: "nat \<Rightarrow> bool" where
  "ascii_digit c = (48 \<le> c \<and> c \<le> 57)"

definition ascii_letter :: "nat \<Rightarrow> bool" where
  "ascii_letter c = ((65 \<le> c \<and> c \<le> 90) \<or> (97 \<le> c \<and> c \<le> 122))"

definition ascii_space :: "nat \<Rightarrow> bool" where
  "ascii_space c = ((9 \<le> c \<and> c \<le> 13) \<or> (28 \<le> c \<and> c \<le> 32))"

definition py_isalnum :: "unicode_db \<Rightarrow> nat \<Rightarrow> bool" where
  "py_isalnum udb c = (if c < 128 then ascii_letter c \<or> ascii_digit c else uc_alnum udb c)"

definition py_isdigit_char :: "unicode_db \<Rightarrow> nat \<Rightarrow> bool" where
  "py_isdigit_char udb c = (if c < 128 then ascii_digit c else uc_digit udb c)"

definition py_decimal :: "unicode_db \<Rightarrow> nat \<Rightarrow> nat option" where
  "py_decimal udb c =
     (if c < 128 then (if ascii_digit c then Some (c - 48) else None) else uc_decimal udb c)"

definition py_isspace_char :: "unicode_db \<Rightarrow> nat \<Rightarrow> bool" where
  "py_isspace_char udb c = (if c < 128 then ascii_space c else uc_space udb c)"

text \<open>\<^verbatim>\<open>s.isdigit()\<close>: at least one character, and every character a digit.\<close>

definition py_isdigit :: "unicode_db \<Rightarrow> pystr \<Rightarrow> bool" where
  "py_isdigit udb s = (s \<noteq> [] \<and> list_all (py_isdigit_char udb) s)"

text \<open>
  \<^verbatim>\<open>s.strip()\<close> drops the white space of \<^verbatim>\<open>str.isspace\<close> at both ends.
\<close>

definition strip_with :: "(nat \<Rightarrow> bool) \<Rightarrow> pystr \<Rightarrow> pystr" where
  "strip_with sp s = rev (dropWhile sp (rev (dropWhile sp s)))"

definition py_strip :: "unicode_db \<Rightarrow> pystr \<Rightarrow> pystr" where
  "py_strip udb s = strip_with (py_isspace_char udb) s"

text \<open>
  \<^verbatim>\<open>int(s)\<close> in base 10: white space around the literal is dropped, one sign is
  allowed, then decimal digits, with single underscores between digits. Everything else
  raises \<^verbatim>\<open>ValueError\<close>. The white space that \<^verbatim>\<open>int\<close> accepts is narrower than
  that of \<^verbatim>\<open>strip\<close> on ASCII: tab to carriage return and the space, without the
  separators 28 to 31. \<open>int_digits\<close> reads the digits; its flag says that the previous
  character was a digit. The limit that recent versions of Python put on the number of
  digits is not modelled.
\<close>

definition int_space :: "unicode_db \<Rightarrow> nat \<Rightarrow> bool" where
  "int_space udb c = (if c < 128 then (9 \<le> c \<and> c \<le> 13) \<or> c = 32 else uc_space udb c)"

fun int_digits :: "unicode_db \<Rightarrow> bool \<Rightarrow> pystr \<Rightarrow> nat \<Rightarrow> nat option" where
  "int_digits udb prev [] acc = (if prev then Some acc else None)"
| "int_digits udb prev (c # cs) acc =
     (if c = 95 then (if prev then int_digits udb False cs acc else None)
      else (case py_decimal udb c of
              None \<Rightarrow> None
            | Some d \<Rightarrow> int_digits udb True cs (10 * acc + d)))"

definition py_int :: "unicode_db \<Rightarrow> pystr \<Rightarrow> exn + int" where
  "py_int udb s =
     (let t = strip_with (int_space udb) s;
          neg = (case t of [] \<Rightarrow> False | c # cs \<Rightarrow> c = 45);
          body = (case t of [] \<Rightarrow> [] | c # cs \<Rightarrow> if c = 45 \<or> c = 43 then cs else t)
      in case int_digits udb False body 0 of
           None \<Rightarrow> Inl (Exn ValueError (ascii ''invalid literal for int() with base 10''))
         | Some n \<Rightarrow> Inr (if neg then - int n else int n))"

text \<open>\<^verbatim>\<open>str(n)\<close> for an integer.\<close>

fun nat_digits :: "nat \<Rightarrow> pystr" where
  "nat_digits n = (if n < 10 then [48 + n] else nat_digits (n div 10) @ [48 + n mod 10])"

declare nat_digits.simps [simp del]

definition py_str :: "int \<Rightarrow> pystr" where
  "py_str i = (if i < 0 then 45 # nat_digits (nat (- i)) else nat_digits (nat i))"

text \<open>\<^verbatim>\<open>xs[i]\<close>: a negative index counts from the end, an index out of range raises.\<close>

definition py_index :: "'a list \<Rightarrow> int \<Rightarrow> exn + 'a" where
  "py_index xs i =
     (if 0 \<le> i \<and> i < int (length xs) then Inr (xs ! nat i)
      else if i < 0 \<and> - int (length xs) \<le> i then Inr (xs ! nat (int (length xs) + i))
      else Inl (Exn IndexError (ascii ''list index out of range'')))"

text \<open>\<^verbatim>\<open>s[:n]\<close>: a negative bound counts from the end.\<close>

definition py_slice_to :: "'a list \<Rightarrow> int \<Rightarrow> 'a list" where
  "py_slice_to s n = (if n < 0 then take (nat (int (length s) + n)) s else take (nat n) s)"

section \<open>Helpers: file names\<close>

text \<open>
  \<^verbatim>\<open>
  def sanitize_filename(s: str, maxlen: int = 120) -> str:
      s = re.sub(r"[^\w\-_\. ]", "_", s)
      return s[:maxlen]
  \<close>
  On a \<^verbatim>\<open>str\<close> pattern \<^verbatim>\<open>\w\<close> is an alphanumeric character or the underscore.
\<close>

definition keep_char :: "unicode_db \<Rightarrow> nat \<Rightarrow> bool" where
  "keep_char udb c = ((py_isalnum udb c \<or> c = 95) \<or> c = 45 \<or> c = 95 \<or> c = 46 \<or> c = 32)"

definition sanitize_filename :: "unicode_db \<Rightarrow> pystr \<Rightarrow> int \<Rightarrow> pystr" where
  "sanitize_filename udb s maxlen =
     py_slice_to (map (\<lambda>c. if keep_char udb c then c else 95) s) maxlen"

section \<open>Helpers: the ledger\<close>

text \<open>
  \<^verbatim>\<open>
  def already_done(page_num:int, row_idx:int) -> bool:
      if not LOG_CSV.exists():
          return False
      with open(LOG_CSV, newline="", encoding="utf-8") as f:
          for r in csv.reader(f):
              if len(r) >= 7 and r[0].isdigit():
                  try:
                      if int(r[0]) == page_num and int(r[1]) == row_idx and r[6] == "success":
                          return True
                  except:
                      continue
      return False
  \<close>
  What the function sees of the ledger file \<^verbatim>\<open>download_log.csv\<close> is what reading it
  answers: \<open>None\<close> when the file does not exist, and otherwise, step by step, what the
  iteration over \<^verbatim>\<open>csv.reader(f)\<close> delivers. A step delivers a row, a list of
  fields, or it raises: \<^verbatim>\<open>UnicodeDecodeError\<close> when the bytes that are read are not
  UTF-8 (the file is decoded block by block, so the step at which this happens depends
  on the blocks and not only on the place of the bytes), and the \<^verbatim>\<open>Error\<close> of
  \<^verbatim>\<open>csv\<close> when a field is longer than the limit of the reader. The iteration stands
  outside the \<^verbatim>\<open>try\<close>, so an exception of a step leaves the function, and nothing
  is read after it. Indexing and \<^verbatim>\<open>int\<close> can raise as well, so every step of the
  scan has a result in \<open>exn + _\<close>; the guard of the \<^verbatim>\<open>if\<close> stands outside the
  \<^verbatim>\<open>try\<close> too.
\<close>

type_synonym csv_row = "pystr list"

type_synonym reading = "(exn + csv_row) list"

definition row_guard :: "unicode_db \<Rightarrow> csv_row \<Rightarrow> exn + bool" where
  "row_guard udb r =
     (if 7 \<le> length r
      then (case py_index r 0 of Inl e \<Rightarrow> Inl e | Inr f \<Rightarrow> Inr (py_isdigit udb f))
      else Inr False)"

definition row_matches :: "unicode_db \<Rightarrow> csv_row \<Rightarrow> int \<Rightarrow> int \<Rightarrow> exn + bool" where
  "row_matches udb r page_num row_idx =
     (case py_index r 0 of Inl e \<Rightarrow> Inl e | Inr f0 \<Rightarrow>
     (case py_int udb f0 of Inl e \<Rightarrow> Inl e | Inr a \<Rightarrow>
     (if a \<noteq> page_num then Inr False else
     (case py_index r 1 of Inl e \<Rightarrow> Inl e | Inr f1 \<Rightarrow>
     (case py_int udb f1 of Inl e \<Rightarrow> Inl e | Inr b \<Rightarrow>
     (if b \<noteq> row_idx then Inr False else
     (case py_index r 6 of Inl e \<Rightarrow> Inl e | Inr f6 \<Rightarrow> Inr (f6 = ascii ''success''))))))))"

fun scan_log :: "unicode_db \<Rightarrow> reading \<Rightarrow> int \<Rightarrow> int \<Rightarrow> exn + bool" where
  "scan_log udb [] page_num row_idx = Inr False"
| "scan_log udb (Inl e # rest) page_num row_idx = Inl e"
| "scan_log udb (Inr r # rest) page_num row_idx =
     (case row_guard udb r of
        Inl e \<Rightarrow> Inl e
      | Inr False \<Rightarrow> scan_log udb rest page_num row_idx
      | Inr True \<Rightarrow>
          (case row_matches udb r page_num row_idx of
             Inl e \<Rightarrow> scan_log udb rest page_num row_idx
           | Inr True \<Rightarrow> Inr True
           | Inr False \<Rightarrow> scan_log udb rest page_num row_idx))"

definition already_done :: "unicode_db \<Rightarrow> reading option \<Rightarrow> int \<Rightarrow> int \<Rightarrow> exn + bool" where
  "already_done udb log_csv page_num row_idx =
     (case log_csv of None \<Rightarrow> Inr False | Some steps \<Rightarrow> scan_log udb steps page_num row_idx)"

text \<open>
  A ledger file that is UTF-8 text, as \<^verbatim>\<open>init_logs\<close> and \<^verbatim>\<open>append_log\<close> write it,
  is the list of its rows. Reading it delivers every row whose fields are within
  \<^verbatim>\<open>csv.field_size_limit()\<close>, 131072 characters, and raises at a row that has a
  longer field.
\<close>

definition field_size_limit :: nat where
  "field_size_limit = 131072"

definition fits :: "csv_row \<Rightarrow> bool" where
  "fits r = list_all (\<lambda>f. length f \<le> field_size_limit) r"

definition field_too_large :: exn where
  "field_too_large = Exn CsvError (ascii ''field larger than field limit (131072)'')"

definition csv_reader :: "csv_row list \<Rightarrow> reading" where
  "csv_reader rows = map (\<lambda>r. if fits r then Inr r else Inl field_too_large) rows"

definition read_log :: "csv_row list option \<Rightarrow> reading option" where
  "read_log f = (case f of None \<Rightarrow> None | Some rows \<Rightarrow> Some (csv_reader rows))"

section \<open>Files, browser events and the responses of the site\<close>

text \<open>
  The state that \<^verbatim>\<open>process_row\<close> and \<^verbatim>\<open>main\<close> change: the ledger
  \<^verbatim>\<open>download_log.csv\<close> and the metadata file \<^verbatim>\<open>metadata.csv\<close>, two UTF-8 text
  files given by their rows (\<open>None\<close> is the file that does not exist), the output
  directory (path to content), and a trace of what was done to the browser and printed,
  in order.
  Durations are in milliseconds: \<^verbatim>\<open>asyncio.sleep(0.12)\<close> is \<open>Sleep 120\<close>.
\<close>

record md_row =
  md_fields :: "pystr list"
  md_pdf_filename :: pystr
  md_api_url :: pystr
  md_page :: int
  md_row_index :: int

datatype md_line = Md_header | Md_line md_row

datatype event =
    Sleep nat
  | Trigger_clicked
  | Confidential_close_clicked
  | Escape_pressed
  | Modal_close_clicked
  | Tmp_page_opened
  | Pdf_rendered
  | Tmp_page_closed
  | Print_row int int pystr pystr
  | Print_unhandled exn

record world =
  log_csv :: "csv_row list option"
  metadata_csv :: "md_line list option"
  out_files :: "pystr \<Rightarrow> bytes option"
  trace :: "event list"

definition ROW_DELAY :: nat where
  "ROW_DELAY = 120"

definition OUTPUT_DIR :: pystr where
  "OUTPUT_DIR = ascii ''rnpdno_pdfs''"

definition emit :: "event \<Rightarrow> world \<Rightarrow> world" where
  "emit ev w = w\<lparr>trace := trace w @ [ev]\<rparr>"

definition sleep :: "nat \<Rightarrow> world \<Rightarrow> world" where
  "sleep ms w = emit (Sleep ms) w"

text \<open>
  \<^verbatim>\<open>
  def append_log(page_num, row_idx, name, folio, filename, api_url, status, notes=""):
      with open(LOG_CSV, "a", newline="", encoding="utf-8") as f:
          writer = csv.writer(f)
          writer.writerow([page_num, row_idx, name, folio, filename, api_url, status, notes])
  \<close>
  The writer turns the two integers into text with \<^verbatim>\<open>str\<close>; opening for append
  creates a missing file. Appends to the two CSV files are taken to succeed.
\<close>

definition log_row ::
  "int \<Rightarrow> int \<Rightarrow> pystr \<Rightarrow> pystr \<Rightarrow> pystr \<Rightarrow> pystr \<Rightarrow> pystr \<Rightarrow> pystr \<Rightarrow> csv_row" where
  "log_row page_num row_idx name folio filename api_url status notes =
     [py_str page_num, py_str row_idx, name, folio, filename, api_url, status, notes]"

definition file_rows :: "'a list option \<Rightarrow> 'a list" where
  "file_rows f = (case f of None \<Rightarrow> [] | Some rows \<Rightarrow> rows)"

definition append_log ::
  "int \<Rightarrow> int \<Rightarrow> pystr \<Rightarrow> pystr \<Rightarrow> pystr \<Rightarrow> pystr \<Rightarrow> pystr \<Rightarrow> pystr \<Rightarrow> world \<Rightarrow> world" where
  "append_log page_num row_idx name folio filename api_url status notes w =
     w\<lparr>log_csv := Some (file_rows (log_csv w) @
            [log_row page_num row_idx name folio filename api_url status notes])\<rparr>"

text \<open>
  \<^verbatim>\<open>
  def append_metadata_row(meta: dict):
      ...
      write_header = not METADATA_CSV.exists() or METADATA_CSV.stat().st_size == 0
      with open(METADATA_CSV, "a", newline="", encoding="utf-8") as f:
          writer = csv.DictWriter(f, fieldnames=fieldnames)
          if write_header:
              writer.writeheader()
          row = {k: meta.get(k, "") for k in fieldnames}
          writer.writerow(row)
  \<close>
\<close>

definition append_metadata_row :: "md_row \<Rightarrow> world \<Rightarrow> world" where
  "append_metadata_row meta w =
     (let old = file_rows (metadata_csv w);
          write_header = (metadata_csv w = None \<or> old = [])
      in w\<lparr>metadata_csv := Some (old @ (if write_header then [Md_header] else []) @ [Md_line meta])\<rparr>)"

text \<open>
  \<^verbatim>\<open>meta.update({"pdf_filename": .., "api_url": .., "page": page_num, "row_index": row_idx})\<close>
\<close>

definition meta_update :: "pystr list \<Rightarrow> pystr \<Rightarrow> pystr \<Rightarrow> int \<Rightarrow> int \<Rightarrow> md_row" where
  "meta_update meta pdf_filename api_url page_num row_idx =
     \<lparr>md_fields = meta, md_pdf_filename = pdf_filename, md_api_url = api_url,
      md_page = page_num, md_row_index = row_idx\<rparr>"

text \<open>\<^verbatim>\<open>save_bytes(path, data)\<close>, when it does not raise.\<close>

definition save_bytes :: "pystr \<Rightarrow> bytes \<Rightarrow> world \<Rightarrow> world" where
  "save_bytes path data w = w\<lparr>out_files := (out_files w)(path \<mapsto> data)\<rparr>"

text \<open>
  What the site and the browser answer while one row is processed, one field for each
  call of \<^verbatim>\<open>process_row\<close> that can fail or that returns data. A call that returns
  nothing of interest is \<open>None\<close> when it succeeds and \<open>Some e\<close> when it raises \<open>e\<close>.
  \<open>heights\<close> is the sequence of values of \<^verbatim>\<open>scrollHeight\<close> that the polling of the
  temporary page would see, sample by sample.
\<close>

record row_env =
  cells :: "exn + pystr option list"
  trigger_first :: "exn + bool"
  trigger_second :: "exn + bool"
  trigger_click :: "exn option"
  conf_wait :: "exn option"
  conf_visible :: "exn + bool"
  conf_close_btn :: "exn + bool"
  conf_close_click :: "exn option"
  conf_escape :: "exn option"
  modal_wait :: "exn option"
  content_wait :: "exn option"
  modal_resize :: "exn option"
  new_page :: "exn option"
  outer_html :: "exn option"
  set_content :: "exn option"
  body_wait :: "exn option"
  heights :: "nat \<Rightarrow> exn + int"
  tmp_resize :: "exn option"
  pdf :: "exn + bytes"
  tmp_close :: "exn option"
  save :: "exn option"
  close_btn :: "exn + bool"
  close_click :: "exn option"
  escape :: "exn option"

section \<open>Core: processing a row\<close>

text \<open>
  \<^verbatim>\<open>extract_metadata_from_row\<close> reads the text of every cell, strips it, and fills the
  eleven named fields by position; fields beyond the cells stay empty, and so does every
  field when reading the cells raises (the exception is caught and printed). The
  dictionary is the list of its eleven values in the order \<^verbatim>\<open>folio_unico\<close>,
  \<^verbatim>\<open>nombre\<close>, ..., \<^verbatim>\<open>boletin\<close>.
\<close>

definition extract_metadata_from_row :: "unicode_db \<Rightarrow> row_env \<Rightarrow> pystr list" where
  "extract_metadata_from_row udb env =
     (case cells env of
        Inl e \<Rightarrow> replicate 11 []
      | Inr tds \<Rightarrow>
          (let vals = map (\<lambda>txt. py_strip udb (case txt of None \<Rightarrow> [] | Some t \<Rightarrow> t)) tds
           in take 11 (vals @ replicate 11 [])))"

text \<open>
  The local variables of \<^verbatim>\<open>process_row\<close> once the row is read (section B of the
  source):
  \<^verbatim>\<open>
  meta = await extract_metadata_from_row(row)
  name_text = meta.get("nombre") or "unknown"
  folio = meta.get("folio_unico") or ""
  safe_label = sanitize_filename(f"{name_text}_{folio}")
  out_path = OUTPUT_DIR / f"{safe_label}.pdf"
  \<close>
\<close>

record item =
  it_page :: int
  it_row :: int
  it_name :: pystr
  it_folio :: pystr
  it_meta :: "pystr list"
  it_out_path :: pystr

definition read_row :: "unicode_db \<Rightarrow> row_env \<Rightarrow> int \<Rightarrow> int \<Rightarrow> item" where
  "read_row udb env page_num row_idx =
     (let m = extract_metadata_from_row udb env;
          name_text = (if m ! 1 = [] then ascii ''unknown'' else m ! 1);
          fol = m ! 0;
          safe_label = sanitize_filename udb (name_text @ ascii ''_'' @ fol) 120
      in \<lparr>it_page = page_num, it_row = row_idx, it_name = name_text, it_folio = fol,
          it_meta = m, it_out_path = OUTPUT_DIR @ ascii ''/'' @ safe_label @ ascii ''.pdf''\<rparr>)"

text \<open>\<^verbatim>\<open>append_log(page_num, row_idx, name_text, folio, filename, "", status, notes)\<close>\<close>

definition log_item :: "item \<Rightarrow> pystr \<Rightarrow> pystr \<Rightarrow> pystr \<Rightarrow> world \<Rightarrow> world" where
  "log_item it filename status notes w =
     append_log (it_page it) (it_row it) (it_name it) (it_folio it) filename [] status notes w"

text \<open>
  \<^verbatim>\<open>
  meta.update({"pdf_filename": filename, "api_url": "", "page": page_num, "row_index": row_idx})
  append_metadata_row(meta)
  \<close>
\<close>

definition metadata_item :: "item \<Rightarrow> pystr \<Rightarrow> world \<Rightarrow> world" where
  "metadata_item it filename w =
     append_metadata_row (meta_update (it_meta it) filename [] (it_page it) (it_row it)) w"

text \<open>
  The error exits of sections C and E:
  \<^verbatim>\<open>
  append_log(page_num, row_idx, name_text, folio, "", "", "error", note)
  meta.update({...})
  append_metadata_row(meta)
  return "error", note
  \<close>
\<close>

definition error_exit :: "item \<Rightarrow> pystr \<Rightarrow> world \<Rightarrow> world \<times> (exn + pystr \<times> pystr)" where
  "error_exit it note w =
     (metadata_item it [] (log_item it [] (ascii ''error'') note w), Inr (ascii ''error'', note))"

text \<open>
  Section H: a temporary page is opened, the modal is copied into it, the height of
  \<^verbatim>\<open>div.modal-body\<close> is polled until it is stable, and the page is printed to PDF.
  \<^verbatim>\<open>
  last_height = 0
  stable_count = 0
  while stable_count < 3:
      height = await tmp_page.evaluate(...)
      if height == last_height:
          stable_count += 1
      else:
          stable_count = 0
          last_height = height
      await asyncio.sleep(0.3)
  \<close>
  The loop has no other exit, so it is a partial function: \<open>None\<close> is the loop that runs
  forever. \<open>i\<close> counts the samples taken. The result is the exception of the sample that
  raised or the stable height, with the number of samples that were followed by a sleep.
\<close>

partial_function (option) stable_loop ::
  "(nat \<Rightarrow> exn + int) \<Rightarrow> nat \<Rightarrow> int \<Rightarrow> nat \<Rightarrow> ((exn + int) \<times> nat) option" where
  "stable_loop hs i last_height stable_count =
     (if stable_count < 3
      then (case hs i of
              Inl e \<Rightarrow> Some (Inl e, i)
            | Inr height \<Rightarrow>
                if height = last_height
                then stable_loop hs (Suc i) last_height (Suc stable_count)
                else stable_loop hs (Suc i) height 0)
      else Some (Inr last_height, i))"

definition wait_until_stable :: "(nat \<Rightarrow> exn + int) \<Rightarrow> ((exn + int) \<times> nat) option" where
  "wait_until_stable hs = stable_loop hs 0 0 0"

fun sleeps :: "nat \<Rightarrow> nat \<Rightarrow> world \<Rightarrow> world" where
  "sleeps 0 ms w = w"
| "sleeps (Suc n) ms w = sleeps n ms (sleep ms w)"

text \<open>
  The inner \<^verbatim>\<open>try\<close> of section H: only \<^verbatim>\<open>PlaywrightTimeoutError\<close> is caught
  there, and logged as a warning; any other exception goes to the outer handler.
\<close>

definition wait_body :: "row_env \<Rightarrow> item \<Rightarrow> world \<Rightarrow> (world \<times> exn option) option" where
  "wait_body env it w =
     (let warn = log_item it [] (ascii ''warning'') (ascii ''modal_content_may_not_be_fully_loaded'')
      in case body_wait env of
           Some e \<Rightarrow> Some (if is_timeout e then (warn w, None) else (w, Some e))
         | None \<Rightarrow>
             (case wait_until_stable (heights env) of
                None \<Rightarrow> None
              | Some (Inl e, n) \<Rightarrow>
                  Some (if is_timeout e then (warn (sleeps n 300 w), None)
                        else (sleeps n 300 w, Some e))
              | Some (Inr h, n) \<Rightarrow> Some (sleeps n 300 w, None)))"

text \<open>
  The outer handler of section H:
  \<^verbatim>\<open>
  except Exception as e:
      pdf_bytes = None
      append_log(page_num, row_idx, name_text, folio, "", "", "error", f"pdf_generation_failed:{e}")
  \<close>
\<close>

definition capture_failed :: "item \<Rightarrow> exn \<Rightarrow> world \<Rightarrow> world \<times> bytes option" where
  "capture_failed it e w =
     (log_item it [] (ascii ''error'') (ascii ''pdf_generation_failed:'' @ exn_msg e) w, None)"

text \<open>
  The rest of the outer \<^verbatim>\<open>try\<close>, after the wait:
  \<^verbatim>\<open>
  await tmp_page.evaluate(...)          # resize
  pdf_bytes = await tmp_page.pdf(...)
  final_api_url = "CDP_PDF"
  await tmp_page.close()
  \<close>
\<close>

definition print_pdf :: "row_env \<Rightarrow> item \<Rightarrow> world \<Rightarrow> world \<times> bytes option" where
  "print_pdf env it w =
     (case tmp_resize env of
        Some e \<Rightarrow> capture_failed it e w
      | None \<Rightarrow>
          (case pdf env of
             Inl e \<Rightarrow> capture_failed it e w
           | Inr pdf_bytes \<Rightarrow>
               (case tmp_close env of
                  Some e \<Rightarrow> capture_failed it e (emit Pdf_rendered w)
                | None \<Rightarrow> (emit Tmp_page_closed (emit Pdf_rendered w), Some pdf_bytes))))"

definition capture_pdf :: "row_env \<Rightarrow> item \<Rightarrow> world \<Rightarrow> (world \<times> bytes option) option" where
  "capture_pdf env it w =
     (case new_page env of
        Some e \<Rightarrow> Some (capture_failed it e w)
      | None \<Rightarrow>
          (case outer_html env of
             Some e \<Rightarrow> Some (capture_failed it e (emit Tmp_page_opened w))
           | None \<Rightarrow>
               (case set_content env of
                  Some e \<Rightarrow> Some (capture_failed it e (emit Tmp_page_opened w))
                | None \<Rightarrow>
                    (case wait_body env it (emit Tmp_page_opened w) of
                       None \<Rightarrow> None
                     | Some (w1, Some e) \<Rightarrow> Some (capture_failed it e w1)
                     | Some (w1, None) \<Rightarrow> Some (print_pdf env it w1)))))"

text \<open>
  Section I:
  \<^verbatim>\<open>
  status = "error"
  if pdf_bytes:
      try:
          await save_bytes(out_path, pdf_bytes)
          append_log(page_num, row_idx, name_text, folio, str(out_path), "", "success", "")
          meta.update({"pdf_filename": str(out_path), ...})
          append_metadata_row(meta)
          status = "success"
      except Exception as e:
          append_log(page_num, row_idx, name_text, folio, "", "", "error", f"write_failed:{e}")
  else:
      append_log(page_num, row_idx, name_text, folio, "", "", "error", "no_pdf_bytes")
  \<close>
  \<open>save env\<close> says whether \<^verbatim>\<open>save_bytes\<close> raises; when it does, the model leaves
  the output directory as it was.
\<close>

definition save_pdf :: "row_env \<Rightarrow> item \<Rightarrow> bytes option \<Rightarrow> world \<Rightarrow> world \<times> pystr" where
  "save_pdf env it pdf_bytes w =
     (if pdf_bytes \<noteq> None \<and> pdf_bytes \<noteq> Some []
      then (case save env of
              None \<Rightarrow>
                (metadata_item it (it_out_path it)
                   (log_item it (it_out_path it) (ascii ''success'') []
                      (save_bytes (it_out_path it) (the pdf_bytes) w)),
                 ascii ''success'')
            | Some e \<Rightarrow>
                (log_item it [] (ascii ''error'') (ascii ''write_failed:'' @ exn_msg e) w,
                 ascii ''error''))
      else (log_item it [] (ascii ''error'') (ascii ''no_pdf_bytes'') w, ascii ''error''))"

text \<open>
  Section J, with every exception swallowed:
  \<^verbatim>\<open>
  try:
      cb = await modal.query_selector("img[alt='Cerrar']")
      if cb:
          await cb.click()
      else:
          await page.keyboard.press("Escape")
  except:
      pass
  \<close>
\<close>

definition close_modal :: "row_env \<Rightarrow> world \<Rightarrow> world" where
  "close_modal env w =
     (case close_btn env of
        Inl e \<Rightarrow> w
      | Inr True \<Rightarrow> (case close_click env of None \<Rightarrow> emit Modal_close_clicked w | Some e \<Rightarrow> w)
      | Inr False \<Rightarrow> (case escape env of None \<Rightarrow> emit Escape_pressed w | Some e \<Rightarrow> w))"

text \<open>
  Sections F and G wait for the modal to render: both branches of F sleep four seconds,
  G sleeps three seconds when the resize did not raise.
\<close>

definition render_wait :: "row_env \<Rightarrow> world \<Rightarrow> world" where
  "render_wait env w =
     (let w1 = (case content_wait env of None \<Rightarrow> sleep 4000 w | Some e \<Rightarrow> sleep 4000 w)
      in case modal_resize env of None \<Rightarrow> sleep 3000 w1 | Some e \<Rightarrow> w1)"

text \<open>Sections F to J, and the final \<^verbatim>\<open>return status, "done"\<close>.\<close>

definition capture_and_save ::
  "row_env \<Rightarrow> item \<Rightarrow> world \<Rightarrow> (world \<times> (exn + pystr \<times> pystr)) option" where
  "capture_and_save env it w =
     (case capture_pdf env it (render_wait env w) of
        None \<Rightarrow> None
      | Some (w1, pdf_bytes) \<Rightarrow>
          (let (w2, status) = save_pdf env it pdf_bytes w1
           in Some (sleep ROW_DELAY (close_modal env w2), Inr (status, ascii ''done''))))"

text \<open>
  Section E:
  \<^verbatim>\<open>
  try:
      modal = await page.wait_for_selector(POPUP_SELECTOR, timeout=20_000)
  except PlaywrightTimeoutError:
      append_log(..., "error", "modal_not_visible")
      meta.update({...})
      append_metadata_row(meta)
      return "error", "modal_not_visible"
  \<close>
\<close>

definition wait_modal ::
  "row_env \<Rightarrow> item \<Rightarrow> world \<Rightarrow> (world \<times> (exn + pystr \<times> pystr)) option" where
  "wait_modal env it w =
     (case modal_wait env of
        Some e \<Rightarrow>
          Some (if is_timeout e then error_exit it (ascii ''modal_not_visible'') w else (w, Inl e))
      | None \<Rightarrow> capture_and_save env it w)"

text \<open>
  Section D. The close of the confidential modal swallows every exception; a
  \<^verbatim>\<open>PlaywrightTimeoutError\<close> of the wait or of \<^verbatim>\<open>is_visible\<close> leads on to section
  E, any other exception leaves \<^verbatim>\<open>process_row\<close>.
\<close>

definition close_confidential :: "row_env \<Rightarrow> world \<Rightarrow> world" where
  "close_confidential env w =
     (case conf_close_btn env of
        Inl e \<Rightarrow> w
      | Inr True \<Rightarrow>
          (case conf_close_click env of None \<Rightarrow> emit Confidential_close_clicked w | Some e \<Rightarrow> w)
      | Inr False \<Rightarrow> (case conf_escape env of None \<Rightarrow> emit Escape_pressed w | Some e \<Rightarrow> w))"

definition detect_confidential ::
  "row_env \<Rightarrow> item \<Rightarrow> world \<Rightarrow> (world \<times> (exn + pystr \<times> pystr)) option" where
  "detect_confidential env it w =
     (case conf_wait env of
        Some e \<Rightarrow> if is_timeout e then wait_modal env it w else Some (w, Inl e)
      | None \<Rightarrow>
          (case conf_visible env of
             Inl e \<Rightarrow> if is_timeout e then wait_modal env it w else Some (w, Inl e)
           | Inr False \<Rightarrow> wait_modal env it w
           | Inr True \<Rightarrow>
               Some (sleep ROW_DELAY
                       (metadata_item it []
                          (log_item it [] (ascii ''confidential'') (ascii ''record_confidential'')
                             (close_confidential env w))),
                     Inr (ascii ''confidential'', ascii ''no_pdf''))))"

text \<open>
  Section C. The trigger is looked up twice with the same selector; every exception of
  the lookups and of the click is caught and gives the outcome
  \<^verbatim>\<open>"error", f"modal_click_failed:{e}"\<close>.
\<close>

definition click_failed :: "item \<Rightarrow> exn \<Rightarrow> world \<Rightarrow> world \<times> (exn + pystr \<times> pystr)" where
  "click_failed it e w = error_exit it (ascii ''modal_click_failed:'' @ exn_msg e) w"

definition do_click ::
  "row_env \<Rightarrow> item \<Rightarrow> world \<Rightarrow> (world \<times> (exn + pystr \<times> pystr)) option" where
  "do_click env it w =
     (case trigger_click env of
        Some e \<Rightarrow> Some (click_failed it e w)
      | None \<Rightarrow> detect_confidential env it (emit Trigger_clicked w))"

definition click_trigger ::
  "row_env \<Rightarrow> item \<Rightarrow> world \<Rightarrow> (world \<times> (exn + pystr \<times> pystr)) option" where
  "click_trigger env it w =
     (case trigger_first env of
        Inl e \<Rightarrow> Some (click_failed it e w)
      | Inr True \<Rightarrow> do_click env it w
      | Inr False \<Rightarrow>
          (case trigger_second env of
             Inl e \<Rightarrow> Some (click_failed it e w)
           | Inr True \<Rightarrow> do_click env it w
           | Inr False \<Rightarrow> Some (error_exit it (ascii ''modal_trigger_not_found'') w)))"

text \<open>
  \<^verbatim>\<open>
  async def process_row(page, context, page_num, row_idx, dry_run=False):
      if already_done(page_num, row_idx):
          return "skipped", "already_logged"
      rows = await page.query_selector_all(ROW_SELECTOR)
      if row_idx >= len(rows):
          return "error", "row_index_out_of_bounds"
      row = rows[row_idx]
      ...
  \<close>
  \<open>rows_query\<close> is what \<^verbatim>\<open>query_selector_all\<close> answers: an exception, or the rows of
  the page, each with the responses it would give. The ledger that \<^verbatim>\<open>already_done\<close>
  reads is the ledger of the state. The result is \<open>None\<close> when the call never
  returns, an exception that leaves \<^verbatim>\<open>process_row\<close>, or the pair it returns.
  The parameter \<^verbatim>\<open>dry_run\<close> is not read anywhere in the body.
\<close>

definition process_row ::
  "unicode_db \<Rightarrow> exn + row_env list \<Rightarrow> int \<Rightarrow> int \<Rightarrow> bool \<Rightarrow> world \<Rightarrow>
   (world \<times> (exn + pystr \<times> pystr)) option" where
  "process_row udb rows_query page_num row_idx dry_run w =
     (case already_done udb (read_log (log_csv w)) page_num row_idx of
        Inl e \<Rightarrow> Some (w, Inl e)
      | Inr True \<Rightarrow> Some (w, Inr (ascii ''skipped'', ascii ''already_logged''))
      | Inr False \<Rightarrow>
          (case rows_query of
             Inl e \<Rightarrow> Some (w, Inl e)
           | Inr rows \<Rightarrow>
               if int (length rows) \<le> row_idx
               then Some (w, Inr (ascii ''error'', ascii ''row_index_out_of_bounds''))
               else (case py_index rows row_idx of
                       Inl e \<Rightarrow> Some (w, Inl e)
                     | Inr env \<Rightarrow> click_trigger env (read_row udb env page_num row_idx) w)))"

section \<open>Main: the traversal of the pages\<close>

text \<open>
  What the site answers to \<^verbatim>\<open>main\<close> itself. For each page number: the texts of the
  paginator buttons and the click on one of them, the wait for the rows, the number of
  rows found, and for every row index the answer to the \<^verbatim>\<open>query_selector_all\<close> of
  the \<^verbatim>\<open>process_row\<close> called for it. \<open>startup\<close> stands for the calls before the
  loop that are not guarded (launching the browser, opening the listing) and
  \<open>teardown\<close> for the two \<^verbatim>\<open>close\<close> calls after it; what they do to the
  browser is not recorded in the trace.
\<close>

record page_env =
  paginator :: "exn + pystr option list"
  paginator_click :: "exn option"
  rows_wait :: "exn option"
  rows_found :: "exn + nat"
  row_queries :: "nat \<Rightarrow> exn + row_env list"

record site =
  startup :: "exn option"
  total_buttons :: "exn + pystr option list"
  pages :: "int \<Rightarrow> page_env"
  teardown :: "exn option"

record args =
  start_page :: int
  end_page :: "int option"
  debug :: bool
  dry_run :: bool
  page_delay :: nat
  row_delay :: nat

definition log_header :: csv_row where
  "log_header = map ascii [''page'', ''row_index'', ''name'', ''folio'', ''filename'',
                           ''api_url'', ''status'', ''notes'']"

text \<open>\<^verbatim>\<open>init_logs\<close> creates each of the two files, with its header, when it is missing.\<close>

definition init_logs :: "world \<Rightarrow> world" where
  "init_logs w =
     w\<lparr>log_csv := (case log_csv w of None \<Rightarrow> Some [log_header] | Some rows \<Rightarrow> Some rows),
       metadata_csv := (case metadata_csv w of None \<Rightarrow> Some [Md_header] | Some ls \<Rightarrow> Some ls)\<rparr>"

text \<open>
  \<^verbatim>\<open>
  async def get_total_pages(page: Page) -> int:
      try:
          btns = await page.query_selector_all(PAGINATOR_PAGE_BUTTONS_SELECTOR)
          max_page = 1
          for b in btns:
              txt = (await (await b.get_property("innerText")).json_value()).strip()
              if txt.isdigit():
                  iv = int(txt)
                  if iv > max_page:
                      max_page = iv
          return max_page
      except Exception:
          return 1
  \<close>
  A button without text (\<open>None\<close>) makes \<^verbatim>\<open>.strip()\<close> raise.
\<close>

fun max_page_loop :: "unicode_db \<Rightarrow> pystr option list \<Rightarrow> int \<Rightarrow> exn + int" where
  "max_page_loop udb [] max_page = Inr max_page"
| "max_page_loop udb (b # btns) max_page =
     (case b of
        None \<Rightarrow> Inl (Exn OtherException (ascii ''NoneType has no attribute strip''))
      | Some t \<Rightarrow>
          (let txt = py_strip udb t
           in if py_isdigit udb txt
              then (case py_int udb txt of
                      Inl e \<Rightarrow> Inl e
                    | Inr iv \<Rightarrow> max_page_loop udb btns (if max_page < iv then iv else max_page))
              else max_page_loop udb btns max_page))"

definition get_total_pages :: "unicode_db \<Rightarrow> site \<Rightarrow> int" where
  "get_total_pages udb st =
     (case total_buttons st of
        Inl e \<Rightarrow> 1
      | Inr btns \<Rightarrow> (case max_page_loop udb btns 1 of Inl e \<Rightarrow> 1 | Inr m \<Rightarrow> m))"

text \<open>
  The navigation to page \<^verbatim>\<open>pnum\<close>: the first button whose text is that number is
  clicked, followed by a sleep of one second; every exception is caught and printed.
\<close>

fun click_page :: "unicode_db \<Rightarrow> pystr option list \<Rightarrow> int \<Rightarrow> exn option \<Rightarrow> world \<Rightarrow> world" where
  "click_page udb [] pnum click w = w"
| "click_page udb (b # btns) pnum click w =
     (case b of
        None \<Rightarrow> w
      | Some t \<Rightarrow>
          (let txt = py_strip udb t
           in if py_isdigit udb txt
              then (case py_int udb txt of
                      Inl e \<Rightarrow> w
                    | Inr iv \<Rightarrow>
                        if iv = pnum
                        then (case click of None \<Rightarrow> sleep 1000 w | Some e \<Rightarrow> w)
                        else click_page udb btns pnum click w)
              else click_page udb btns pnum click w))"

definition goto_page :: "unicode_db \<Rightarrow> page_env \<Rightarrow> int \<Rightarrow> world \<Rightarrow> world" where
  "goto_page udb pe pnum w =
     (if pnum \<noteq> 1
      then (case paginator pe of
              Inl e \<Rightarrow> w
            | Inr btns \<Rightarrow> click_page udb btns pnum (paginator_click pe) w)
      else w)"

text \<open>
  The loop over the rows of one page:
  \<^verbatim>\<open>
  for r_idx in range(nrows):
      try:
          status, note = await process_row(page, context, pnum, r_idx, dry_run=args.dry_run)
          print(f"Page {pnum} row {r_idx}: {status} ({note})")
      except Exception as e:
          print("Unhandled exception processing row:", e)
          append_log(pnum, r_idx, "", "", "", "", "error", f"unhandled:{e}")
  \<close>
\<close>

definition do_row :: "unicode_db \<Rightarrow> page_env \<Rightarrow> int \<Rightarrow> bool \<Rightarrow> nat \<Rightarrow> world \<Rightarrow> world option" where
  "do_row udb pe pnum dry r_idx w =
     (case process_row udb (row_queries pe r_idx) pnum (int r_idx) dry w of
        None \<Rightarrow> None
      | Some (w1, Inr (status, note)) \<Rightarrow> Some (emit (Print_row pnum (int r_idx) status note) w1)
      | Some (w1, Inl e) \<Rightarrow>
          Some (append_log pnum (int r_idx) [] [] [] [] (ascii ''error'')
                  (ascii ''unhandled:'' @ exn_msg e) (emit (Print_unhandled e) w1)))"

fun run_rows ::
  "unicode_db \<Rightarrow> page_env \<Rightarrow> int \<Rightarrow> bool \<Rightarrow> nat list \<Rightarrow> world \<Rightarrow> world option" where
  "run_rows udb pe pnum dry [] w = Some w"
| "run_rows udb pe pnum dry (r_idx # rest) w =
     (case do_row udb pe pnum dry r_idx w of
        None \<Rightarrow> None
      | Some w1 \<Rightarrow> run_rows udb pe pnum dry rest w1)"

text \<open>
  One page: navigation, the wait for the rows (a timeout is printed, any other
  exception ends the run), the rows, and the pause between pages. The result of the
  loop over the pages is the final state with the exception that ended the run, if any.
\<close>

definition do_page ::
  "unicode_db \<Rightarrow> page_env \<Rightarrow> args \<Rightarrow> int \<Rightarrow> world \<Rightarrow> (world \<times> exn option) option" where
  "do_page udb pe a pnum w =
     (let w1 = goto_page udb pe pnum w;
          aborted = (case rows_wait pe of None \<Rightarrow> None
                     | Some e \<Rightarrow> if is_timeout e then None else Some e)
      in case aborted of
           Some e \<Rightarrow> Some (w1, Some e)
         | None \<Rightarrow>
             (case rows_found pe of
                Inl e \<Rightarrow> Some (w1, Some e)
              | Inr nrows \<Rightarrow>
                  (case run_rows udb pe pnum (dry_run a) [0..<nrows] w1 of
                     None \<Rightarrow> None
                   | Some w2 \<Rightarrow> Some (sleep (page_delay a) w2, None))))"

fun run_pages ::
  "unicode_db \<Rightarrow> (int \<Rightarrow> page_env) \<Rightarrow> args \<Rightarrow> int list \<Rightarrow> world \<Rightarrow> (world \<times> exn option) option" where
  "run_pages udb ps a [] w = Some (w, None)"
| "run_pages udb ps a (pnum # rest) w =
     (case do_page udb (ps pnum) a pnum w of
        None \<Rightarrow> None
      | Some (w1, Some e) \<Rightarrow> Some (w1, Some e)
      | Some (w1, None) \<Rightarrow> run_pages udb ps a rest w1)"

text \<open>
  \<^verbatim>\<open>
  endp = args.end_page if args.end_page else total_pages
  for pnum in range(args.start_page, endp + 1):
  \<close>
  An end page of 0 is falsy, like a missing one.
\<close>

definition page_range :: "unicode_db \<Rightarrow> site \<Rightarrow> args \<Rightarrow> int list" where
  "page_range udb st a =
     (let endp = (case end_page a of
                    None \<Rightarrow> get_total_pages udb st
                  | Some e \<Rightarrow> if e = 0 then get_total_pages udb st else e)
      in [start_page a .. endp])"

definition main :: "unicode_db \<Rightarrow> site \<Rightarrow> args \<Rightarrow> world \<Rightarrow> (world \<times> exn option) option" where
  "main udb st a w =
     (let w0 = init_logs w
      in case startup st of
           Some e \<Rightarrow> Some (w0, Some e)
         | None \<Rightarrow>
             (case run_pages udb (pages st) a (page_range udb st a) w0 of
                None \<Rightarrow> None
              | Some (w1, Some e) \<Rightarrow> Some (w1, Some e)
              | Some (w1, None) \<Rightarrow> Some (w1, teardown st)))"

section \<open>Notions used to state the properties\<close>

text \<open>
  A character database for concrete evaluations: above ASCII it knows the letters of
  Latin-1 and nothing else.
\<close>

definition latin1_db :: unicode_db where
  "latin1_db =
     \<lparr>uc_alnum = (\<lambda>c. 192 \<le> c \<and> c \<le> 255 \<and> c \<noteq> 215 \<and> c \<noteq> 247),
      uc_digit = (\<lambda>c. False), uc_decimal = (\<lambda>c. None), uc_space = (\<lambda>c. False)\<rparr>"



text \<open>
  A row of the ledger file that reads as a success for the key: what the scan looks for.
\<close>

definition success_row :: "unicode_db \<Rightarrow> int \<Rightarrow> int \<Rightarrow> csv_row \<Rightarrow> bool" where
  "success_row udb page_num row_idx r =
     (7 \<le> length r \<and> py_isdigit udb (r ! 0) \<and> py_int udb (r ! 0) = Inr page_num \<and>
      py_int udb (r ! 1) = Inr row_idx \<and> r ! 6 = ascii ''success'')"

text \<open>
  The rows of a ledger file that reading delivers: those before the first row with a
  field beyond the limit of the reader.
\<close>

definition rows_read :: "csv_row list option \<Rightarrow> csv_row list" where
  "rows_read f = takeWhile fits (file_rows f)"

text \<open>
  The counter of the specification, written from its words: the number of consecutive
  samples equal to the previous sample, reset to zero on any change. The sample before
  the first one is the initial \<^verbatim>\<open>last_height = 0\<close>. The content is declared stable
  at the first sample where the counter reaches three.
\<close>

fun spec_counter :: "(nat \<Rightarrow> int) \<Rightarrow> nat \<Rightarrow> nat" where
  "spec_counter h 0 = (if h 0 = 0 then 1 else 0)"
| "spec_counter h (Suc i) = (if h (Suc i) = h i then Suc (spec_counter h i) else 0)"

definition stable_at :: "(nat \<Rightarrow> int) \<Rightarrow> nat \<Rightarrow> bool" where
  "stable_at h n = (spec_counter h n = 3 \<and> (\<forall>m<n. spec_counter h m < 3))"

text \<open>The two variables of the loop before sample \<open>i\<close> is taken.\<close>

fun prev_sample :: "(nat \<Rightarrow> int) \<Rightarrow> nat \<Rightarrow> int" where
  "prev_sample h 0 = 0"
| "prev_sample h (Suc i) = h i"

fun count_before :: "(nat \<Rightarrow> int) \<Rightarrow> nat \<Rightarrow> nat" where
  "count_before h 0 = 0"
| "count_before h (Suc i) = spec_counter h i"

text \<open>The measure sequence of the specification's example.\<close>

definition example_heights :: "nat \<Rightarrow> exn + int" where
  "example_heights = (\<lambda>i. Inr ([10, 10, 10, 20, 20, 20, 20] ! i))"


text \<open>
  The outcomes of \<open>process_row\<close> that come with a metadata row: success, confidential,
  and the three error exits taken before the capture.
\<close>

definition writes_metadata :: "pystr \<Rightarrow> pystr \<Rightarrow> bool" where
  "writes_metadata status note =
     (status = ascii ''success'' \<or> status = ascii ''confidential'' \<or>
      (status = ascii ''error'' \<and>
         (note = ascii ''modal_trigger_not_found'' \<or> note = ascii ''modal_not_visible'' \<or>
          take 19 note = ascii ''modal_click_failed:'')))"

text \<open>
  The metadata rows that an outcome of \<open>process_row\<close> comes with, for the item read
  from the row: one row when the outcome writes metadata, whose \<^verbatim>\<open>api_url\<close> is empty
  and whose \<^verbatim>\<open>pdf_filename\<close> is the path of the document for a success and empty
  otherwise.
\<close>

fun md_of :: "item \<Rightarrow> exn + pystr \<times> pystr \<Rightarrow> md_row list" where
  "md_of it (Inl e) = []"
| "md_of it (Inr (status, note)) =
     (if writes_metadata status note
      then [meta_update (it_meta it) (if status = ascii ''success'' then it_out_path it else [])
              [] (it_page it) (it_row it)]
      else [])"

text \<open>
  The rows of the metadata file for one item, the rows of the ledger for one item, and
  the ledger row that \<^verbatim>\<open>main\<close> writes when \<^verbatim>\<open>process_row\<close> raises.
\<close>

fun md_rows :: "int \<Rightarrow> int \<Rightarrow> md_line list \<Rightarrow> md_row list" where
  "md_rows p r [] = []"
| "md_rows p r (Md_header # ms) = md_rows p r ms"
| "md_rows p r (Md_line m # ms) =
     (if md_page m = p \<and> md_row_index m = r then m # md_rows p r ms else md_rows p r ms)"

definition keyed :: "int \<Rightarrow> int \<Rightarrow> csv_row \<Rightarrow> bool" where
  "keyed p r row = (take 2 row = [py_str p, py_str r])"

definition unhandled_row :: "int \<Rightarrow> int \<Rightarrow> pystr \<Rightarrow> csv_row" where
  "unhandled_row p r msg = log_row p r [] [] [] [] (ascii ''error'') (ascii ''unhandled:'' @ msg)"

text \<open>
  The two events that \<^verbatim>\<open>main\<close> prints for a row, and the first of them for one item.
\<close>

fun is_print :: "event \<Rightarrow> bool" where
  "is_print (Print_row p r status note) = True"
| "is_print (Print_unhandled e) = True"
| "is_print ev = False"

fun print_key :: "int \<Rightarrow> int \<Rightarrow> event \<Rightarrow> bool" where
  "print_key p r (Print_row p' r' status note) = (p' = p \<and> r' = r)"
| "print_key p r ev = False"

text \<open>
  What \<open>process_row\<close> does to the state for the item \<open>(p, r)\<close>, as a relation: it
  appends events that are not prints, ledger rows and metadata rows of this item, and
  it writes output files. The list holds the metadata rows, in order.
\<close>

inductive row_steps :: "int \<Rightarrow> int \<Rightarrow> world \<Rightarrow> md_row list \<Rightarrow> world \<Rightarrow> bool" for p r w where
  rs_refl: "row_steps p r w [] w"
| rs_emit: "row_steps p r w mds w1 \<Longrightarrow> \<not> is_print ev \<Longrightarrow> row_steps p r w mds (emit ev w1)"
| rs_log: "row_steps p r w mds w1 \<Longrightarrow>
           row_steps p r w mds (append_log p r name fol filename api_url status notes w1)"
| rs_meta: "row_steps p r w mds w1 \<Longrightarrow>
            row_steps p r w (mds @ [meta_update m filename api_url p r])
              (append_metadata_row (meta_update m filename api_url p r) w1)"
| rs_save: "row_steps p r w mds w1 \<Longrightarrow> row_steps p r w mds (save_bytes path b w1)"

text \<open>
  The metadata rows \<open>mds\<close> of an item are right for its outcome: exactly one row when
  the outcome writes metadata, with empty result fields unless the outcome is a
  success, and none otherwise.
\<close>

definition md_ok :: "pystr \<Rightarrow> pystr \<Rightarrow> md_row list \<Rightarrow> bool" where
  "md_ok status note mds =
     (if writes_metadata status note
      then (\<exists>m. mds = [m] \<and> md_api_url m = [] \<and>
                (status \<noteq> ascii ''success'' \<longrightarrow> md_pdf_filename m = []))
      else mds = [])"

text \<open>
  The state \<open>w'\<close> is \<open>w\<close> with events, ledger rows and metadata lines appended. For
  one item, what was appended either does not concern it, or records that it was
  processed once: its outcome was printed once, with the metadata rows the outcome
  calls for, or nothing was printed and its only new ledger row is the one
  \<^verbatim>\<open>main\<close> writes for an unhandled exception.
\<close>

definition grows :: "world \<Rightarrow> world \<Rightarrow> event list \<Rightarrow> csv_row list \<Rightarrow> md_line list \<Rightarrow> bool" where
  "grows w w' ts ls ms =
     (trace w' = trace w @ ts \<and>
      file_rows (log_csv w') = file_rows (log_csv w) @ ls \<and>
      file_rows (metadata_csv w') = file_rows (metadata_csv w) @ ms)"

definition untouched :: "int \<Rightarrow> int \<Rightarrow> event list \<Rightarrow> csv_row list \<Rightarrow> md_line list \<Rightarrow> bool" where
  "untouched p r ts ls ms =
     (filter (print_key p r) ts = [] \<and> filter (keyed p r) ls = [] \<and> md_rows p r ms = [])"

definition key_done :: "int \<Rightarrow> int \<Rightarrow> event list \<Rightarrow> csv_row list \<Rightarrow> md_line list \<Rightarrow> bool" where
  "key_done p r ts ls ms =
     ((\<exists>status note. filter (print_key p r) ts = [Print_row p r status note] \<and>
         md_ok status note (md_rows p r ms)) \<or>
      (filter (print_key p r) ts = [] \<and> md_rows p r ms = [] \<and>
         (\<exists>msg. filter (keyed p r) ls = [unhandled_row p r msg])))"

definition processed :: "world \<Rightarrow> world \<Rightarrow> (int \<times> int) set \<Rightarrow> bool" where
  "processed w w' D =
     (\<exists>ts ls ms. grows w w' ts ls ms \<and>
        (\<forall>k\<in>D. key_done (fst k) (snd k) ts ls ms) \<and>
        (\<forall>k. k \<notin> D \<longrightarrow> untouched (fst k) (snd k) ts ls ms))"

text \<open>
  What a run has done to the metadata file between the states \<open>w\<close> and \<open>w'\<close>, item by
  item. \<open>ts\<close> are the events of the run and \<open>ms\<close> the lines it appended to the
  metadata file. An item whose outcome was printed has exactly one new metadata row
  when the outcome is a success, confidential, or one of the error exits taken before
  the capture, and that row has an empty \<^verbatim>\<open>api_url\<close> and, unless the outcome is a
  success, an empty \<^verbatim>\<open>pdf_filename\<close>; it has no new metadata row when the outcome
  is skipped or an index out of bounds. An item for which no outcome was printed (its
  processing raised, or the run did not come to it) has no new metadata row.
\<close>

definition covered :: "world \<Rightarrow> world \<Rightarrow> bool" where
  "covered w w' =
     (\<exists>ts ms. trace w' = trace w @ ts \<and>
        file_rows (metadata_csv w') = file_rows (metadata_csv w) @ ms \<and>
        (\<forall>p r.
           (\<forall>status note. Print_row p r status note \<in> set ts \<longrightarrow>
              (writes_metadata status note \<longrightarrow>
                 (\<exists>m. md_rows p r ms = [m] \<and> md_api_url m = [] \<and>
                      (status \<noteq> ascii ''success'' \<longrightarrow> md_pdf_filename m = []))) \<and>
              (status = ascii ''skipped'' \<or>
               (status = ascii ''error'' \<and> note = ascii ''row_index_out_of_bounds'') \<longrightarrow>
                 md_rows p r ms = [])) \<and>
           ((\<forall>status note. Print_row p r status note \<notin> set ts) \<longrightarrow> md_rows p r ms = [])))"

text \<open>
  The state of a run of \<^verbatim>\<open>main\<close> when it has gone through the pages \<open>ps\<close> and, on
  the next page \<open>q\<close>, through the rows before the row \<open>k\<close>: when \<open>q\<close> lists more
  than \<open>k\<close> rows, the state in which \<open>process_row\<close> is called for the item
  \<open>(q, k)\<close>. A run that never returns from that call has reached this state and no
  later one.
\<close>

definition run_to ::
  "unicode_db \<Rightarrow> site \<Rightarrow> args \<Rightarrow> int list \<Rightarrow> int \<Rightarrow> nat \<Rightarrow> world \<Rightarrow> world option" where
  "run_to udb st a ps q k w =
     (case run_pages udb (pages st) a ps (init_logs w) of
        Some (w1, None) \<Rightarrow>
          run_rows udb (pages st q) q (dry_run a) [0..<k] (goto_page udb (pages st q) q w1)
      | _ \<Rightarrow> None)"


text \<open>
  Concrete responses for evaluation: a row that opens a normal modal whose height is
  600 from the first sample on and prints to four bytes; the same row when the height
  never settles; a listing of one page whose rows all answer the same way.
\<close>

definition timeout_error :: exn where
  "timeout_error = Exn PlaywrightTimeoutError (ascii ''Timeout exceeded'')"

definition normal_env :: row_env where
  "normal_env =
     \<lparr>cells = Inr [Some (ascii ''F1''), Some (ascii '' Ana ''), Some (ascii ''Ruiz'')],
      trigger_first = Inr True, trigger_second = Inr True, trigger_click = None,
      conf_wait = Some timeout_error, conf_visible = Inr False, conf_close_btn = Inr True,
      conf_close_click = None, conf_escape = None,
      modal_wait = None, content_wait = None, modal_resize = None,
      new_page = None, outer_html = None, set_content = None, body_wait = None,
      heights = (\<lambda>i. Inr 600), tmp_resize = None, pdf = Inr [37, 80, 68, 70],
      tmp_close = None, save = None, close_btn = Inr True, close_click = None, escape = None\<rparr>"

definition unstable_env :: row_env where
  "unstable_env = normal_env\<lparr>heights := (\<lambda>i. Inr (if even i then 100 else 200))\<rparr>"

definition start_world :: world where
  "start_world =
     \<lparr>log_csv = Some [log_header], metadata_csv = Some [Md_header], out_files = Map.empty,
      trace = []\<rparr>"

definition one_page :: "nat \<Rightarrow> (nat \<Rightarrow> exn + row_env list) \<Rightarrow> page_env" where
  "one_page n q =
     \<lparr>paginator = Inr [], paginator_click = None, rows_wait = None, rows_found = Inr n,
      row_queries = q\<rparr>"

definition demo_site :: "nat \<Rightarrow> (nat \<Rightarrow> exn + row_env list) \<Rightarrow> site" where
  "demo_site n q =
     \<lparr>startup = None, total_buttons = Inr [], pages = (\<lambda>p. one_page n q), teardown = None\<rparr>"

definition demo_args :: args where
  "demo_args =
     \<lparr>start_page = 1, end_page = Some 1, debug = False, dry_run = True, page_delay = 500,
      row_delay = 120\<rparr>"

text \<open>
  Variants of the normal row: the print of the temporary page raises; the normal modal
  never appears; the wait for the normal modal raises an exception that is not a
  timeout, which leaves \<open>process_row\<close>. A state whose ledger already holds a
  success entry for the item of page 1, row 0.
\<close>

definition failing_env :: row_env where
  "failing_env = normal_env\<lparr>pdf := Inl (Exn OtherException (ascii ''Printing failed''))\<rparr>"

definition no_modal_env :: row_env where
  "no_modal_env = normal_env\<lparr>modal_wait := Some timeout_error\<rparr>"

definition crash :: exn where
  "crash = Exn OtherException (ascii ''Target closed'')"

definition crashing_env :: row_env where
  "crashing_env = normal_env\<lparr>modal_wait := Some crash\<rparr>"

definition done_first :: world where
  "done_first =
     \<lparr>log_csv = Some [log_header,
                       log_row 1 0 (ascii ''Ana'') (ascii ''F1'') (ascii ''rnpdno_pdfs/Ana_F1.pdf'') []
                         (ascii ''success'') []],
      metadata_csv = Some [Md_header], out_files = Map.empty, trace = []\<rparr>"



text \<open>
  A ledger file that \<^verbatim>\<open>append_log\<close> can have written: the header, and the entry of an
  unhandled exception whose message has 131063 characters, so that the field
  \<^verbatim>\<open>unhandled:...\<close> has one character more than the reader accepts.
\<close>

definition long_ledger :: "csv_row list option" where
  "long_ledger = Some [log_header, unhandled_row 1 0 (replicate 131063 120)]"

text \<open>
  What \<^verbatim>\<open>str(e)\<close> is for the \<^verbatim>\<open>UnicodeDecodeError\<close> of a file whose first byte is
  \<^verbatim>\<open>0xff\<close>; 39 is the apostrophe.
\<close>

definition undecodable :: exn where
  "undecodable =
     Exn UnicodeDecodeError
       ([39] @ ascii ''utf-8'' @ [39] @ ascii '' codec can'' @ [39] @
        ascii ''t decode byte 0xff in position 0: invalid start byte'')"

text \<open>A listing of one page with two rows, where the height of the second never settles.\<close>

definition hanging_site :: site where
  "hanging_site = demo_site 2 (\<lambda>i. Inr [normal_env, unstable_env])"

section \<open>Properties of the Python primitives\<close>

lemma nat_digits_ne: "nat_digits n \<noteq> []"
  by (subst nat_digits.simps) simp

lemma nat_digits_all: "list_all ascii_digit (nat_digits n)"
proof (induction n rule: nat_digits.induct)
  case (1 n)
  show ?case
  proof (cases "n < 10")
    case True
    then show ?thesis by (subst nat_digits.simps) (simp add: ascii_digit_def)
  next
    case False
    have "n mod 10 < 10" by simp
    then have "ascii_digit (48 + n mod 10)" unfolding ascii_digit_def by linarith
    with False 1 show ?thesis by (subst nat_digits.simps) simp
  qed
qed

lemma ascii_digit_facts:
  assumes "ascii_digit c"
  shows "c < 128" "c \<noteq> 95" "c \<noteq> 45" "c \<noteq> 43" "\<not> ascii_space c" "py_decimal udb c = Some (c - 48)"
    "py_isdigit_char udb c" "\<not> int_space udb c"
  using assms
  by (auto simp: ascii_digit_def ascii_space_def py_decimal_def py_isdigit_char_def int_space_def)

lemma int_digits_append:
  "list_all ascii_digit xs \<Longrightarrow> xs \<noteq> [] \<Longrightarrow>
   int_digits udb prev (xs @ ys) acc = int_digits udb True ys (foldl (\<lambda>a c. 10 * a + (c - 48)) acc xs)"
proof (induction xs arbitrary: prev acc)
  case Nil then show ?case by simp
next
  case (Cons c cs)
  then have c: "ascii_digit c" and cs: "list_all ascii_digit cs" by simp_all
  show ?case
  proof (cases "cs = []")
    case True
    then show ?thesis using ascii_digit_facts[OF c] by simp
  next
    case False
    then show ?thesis using ascii_digit_facts[OF c] Cons.IH[OF cs False] by simp
  qed
qed

lemma foldl_nat_digits: "foldl (\<lambda>a c. 10 * a + (c - 48)) acc (nat_digits n) = acc * 10 ^ length (nat_digits n) + n"
proof (induction n arbitrary: acc rule: nat_digits.induct)
  case (1 n)
  show ?case
  proof (cases "n < 10")
    case True
    then show ?thesis by (subst (1 2) nat_digits.simps) simp
  next
    case False
    then show ?thesis
    proof -
      have "n div 10 * 10 + n mod 10 = n" by simp
      then show ?thesis using False
        by (subst (1 2) nat_digits.simps) (simp add: 1 add_mult_distrib)
    qed
  qed
qed


lemma strip_noop:
  assumes "s \<noteq> []" "\<not> P (hd s)" "\<not> P (last s)"
  shows "rev (dropWhile P (rev (dropWhile P s))) = s"
proof -
  from assms have 1: "dropWhile P s = s" by (cases s) auto
  from assms have "rev s \<noteq> []" "\<not> P (hd (rev s))" by (simp_all add: hd_rev)
  then have "dropWhile P (rev s) = rev s" by (cases "rev s") auto
  with 1 show ?thesis by simp
qed

lemma list_all_hd_last:
  "list_all P s \<Longrightarrow> s \<noteq> [] \<Longrightarrow> P (hd s) \<and> P (last s)"
  by (auto simp: list_all_iff)

lemma strip_digits:
  assumes "list_all ascii_digit s" "s \<noteq> []" and that: "pre = [] \<or> pre = [45]"
  shows "strip_with (int_space udb) (pre @ s) = pre @ s"
proof -
  have hl: "ascii_digit (hd s)" "ascii_digit (last s)"
    using list_all_hd_last[OF assms(1,2)] by simp_all
  have ns: "\<not> int_space udb 45"
    by (simp add: int_space_def)
  have "\<not> int_space udb (hd (pre @ s))" "\<not> int_space udb (last (pre @ s))"
    using that hl assms(2) ns ascii_digit_facts(8) by auto
  then show ?thesis unfolding strip_with_def using assms(2) by (intro strip_noop) auto
qed

lemma int_digits_nat_digits: "int_digits udb False (nat_digits n) 0 = Some n"
  using int_digits_append[OF nat_digits_all nat_digits_ne, of udb False n "[]" 0]
  by (simp add: foldl_nat_digits)

lemma hd_nat_digits: "nat_digits n = c # cs \<Longrightarrow> c \<noteq> 45 \<and> c \<noteq> 43"
  using nat_digits_all[of n] ascii_digit_facts(3,4) by auto

lemma py_int_py_str: "py_int udb (py_str i) = Inr i"
proof (cases "i < 0")
  case True
  have "strip_with (int_space udb) ([45] @ nat_digits (nat (- i))) = [45] @ nat_digits (nat (- i))"
    by (rule strip_digits[OF nat_digits_all nat_digits_ne]) simp
  then show ?thesis using True
    by (simp add: py_int_def py_str_def int_digits_nat_digits)
next
  case False
  have s: "strip_with (int_space udb) ([] @ nat_digits (nat i)) = [] @ nat_digits (nat i)"
    by (rule strip_digits[OF nat_digits_all nat_digits_ne]) simp
  obtain c cs where cs: "nat_digits (nat i) = c # cs"
    using nat_digits_ne[of "nat i"] by (cases "nat_digits (nat i)") auto
  from hd_nat_digits[OF cs] have "c \<noteq> 45" "c \<noteq> 43" by simp_all
  then show ?thesis using False s cs int_digits_nat_digits[of udb "nat i"]
    by (simp add: py_int_def py_str_def)
qed

lemma py_str_inj: "py_str i = py_str j \<longleftrightarrow> i = j"
proof
  assume "py_str i = py_str j"
  then have "py_int undefined (py_str i) = py_int undefined (py_str j)" by simp
  then show "i = j" by (simp add: py_int_py_str)
qed simp

lemma py_isdigit_py_str: "py_isdigit udb (py_str i) \<longleftrightarrow> 0 \<le> i"
proof (cases "i < 0")
  case True
  have "\<not> py_isdigit_char udb 45" by (simp add: py_isdigit_char_def ascii_digit_def)
  then show ?thesis using True by (simp add: py_isdigit_def py_str_def)
next
  case False
  have "list_all (py_isdigit_char udb) (nat_digits (nat i))"
    using nat_digits_all[of "nat i"] ascii_digit_facts(7) by (auto simp: list_all_iff)
  then show ?thesis using False by (simp add: py_isdigit_def py_str_def nat_digits_ne)
qed

section \<open>Properties of the ledger scan\<close>

lemma py_index_0: "xs \<noteq> [] \<Longrightarrow> py_index xs 0 = Inr (xs ! 0)"
  by (simp add: py_index_def)

lemma row_guard_eq: "row_guard udb r = Inr (7 \<le> length r \<and> py_isdigit udb (r ! 0))"
proof (cases "7 \<le> length r")
  case True
  then have "r \<noteq> []" by auto
  with True show ?thesis by (simp add: row_guard_def py_index_0)
next
  case False
  then show ?thesis by (simp add: row_guard_def)
qed

lemma row_matches_True:
  assumes "7 \<le> length r"
  shows "row_matches udb r p q = Inr True \<longleftrightarrow>
         py_int udb (r ! 0) = Inr p \<and> py_int udb (r ! 1) = Inr q \<and> r ! 6 = ascii ''success''"
proof -
  from assms have i: "py_index r 0 = Inr (r ! 0)" "py_index r 1 = Inr (r ! 1)" "py_index r 6 = Inr (r ! 6)"
    by (auto simp: py_index_def)
  show ?thesis
    by (auto simp: row_matches_def i split: sum.splits)
qed

lemma scan_log_row:
  "scan_log udb (Inr r # rest) p q =
     (if success_row udb p q r then Inr True else scan_log udb rest p q)"
proof (cases "7 \<le> length r \<and> py_isdigit udb (r ! 0)")
  case False
  then show ?thesis by (auto simp: row_guard_eq success_row_def)
next
  case True
  then have len: "7 \<le> length r" by simp
  show ?thesis
  proof (cases "row_matches udb r p q = Inr True")
    case True
    with \<open>7 \<le> length r \<and> py_isdigit udb (r ! 0)\<close> show ?thesis
      using row_matches_True[OF len, of udb p q] by (simp add: row_guard_eq success_row_def)
  next
    case False
    then have "\<not> success_row udb p q r"
      using row_matches_True[OF len, of udb p q] by (simp add: success_row_def)
    with False True show ?thesis
      by (cases "row_matches udb r p q") (auto simp: row_guard_eq)
  qed
qed

lemma scan_log_append:
  "scan_log udb (map Inr rows @ rest) p q =
     (if \<exists>r\<in>set rows. success_row udb p q r then Inr True else scan_log udb rest p q)"
  by (induction rows) (simp_all del: scan_log.simps(3) add: scan_log_row)

lemma scan_log_rows: "scan_log udb (map Inr rows) p q = Inr (\<exists>r\<in>set rows. success_row udb p q r)"
  using scan_log_append[of udb rows "[]" p q] by simp

lemma scan_log_skip:
  "\<not> success_row udb p q r \<Longrightarrow>
   scan_log udb (xs @ Inr r # ys) p q = scan_log udb (xs @ ys) p q"
proof (induction xs)
  case Nil
  then show ?case by (simp del: scan_log.simps(3) add: scan_log_row)
next
  case (Cons x xs)
  then show ?case by (cases x) (simp_all del: scan_log.simps(3) add: scan_log_row)
qed

lemma csv_reader_fits: "list_all fits rows \<Longrightarrow> csv_reader rows = map Inr rows"
  by (induction rows) (simp_all add: csv_reader_def)

lemma csv_reader_split:
  "\<not> list_all fits rows \<Longrightarrow>
   \<exists>rest. csv_reader rows = map Inr (takeWhile fits rows) @ Inl field_too_large # rest"
  by (induction rows) (auto simp: csv_reader_def)

lemma takeWhile_fits: "list_all fits rows \<Longrightarrow> takeWhile fits rows = rows"
  by (induction rows) simp_all

lemma already_done_read:
  "already_done udb (read_log f) p q =
     (if \<exists>r\<in>set (rows_read f). success_row udb p q r then Inr True
      else if list_all fits (file_rows f) then Inr False else Inl field_too_large)"
proof (cases f)
  case None
  then show ?thesis by (simp add: already_done_def read_log_def rows_read_def file_rows_def)
next
  case (Some rows)
  show ?thesis
  proof (cases "list_all fits rows")
    case True
    then show ?thesis using Some
      by (simp add: already_done_def read_log_def rows_read_def file_rows_def csv_reader_fits
          takeWhile_fits scan_log_rows)
  next
    case False
    from csv_reader_split[OF this] obtain rest where
      "csv_reader rows = map Inr (takeWhile fits rows) @ Inl field_too_large # rest" ..
    then show ?thesis using Some False
      by (simp add: already_done_def read_log_def rows_read_def file_rows_def scan_log_append)
  qed
qed

lemma success_row_log_row:
  "success_row udb p q (log_row p' q' name fol fn api st notes) \<longleftrightarrow>
     0 \<le> p' \<and> p' = p \<and> q' = q \<and> st = ascii ''success''"
  by (auto simp: success_row_def log_row_def py_isdigit_py_str py_int_py_str)

lemma success_row_header: "\<not> success_row udb p q log_header"
  by (simp add: success_row_def log_header_def py_isdigit_def py_isdigit_char_def ascii_def ascii_digit_def)

text \<open>
  The rows that the scraper writes for small page and row numbers and short texts are
  within the limit of the reader.
\<close>

lemma length_nat_digits: "length (nat_digits n) \<le> Suc n"
proof (induction n rule: nat_digits.induct)
  case (1 n)
  show ?case
  proof (cases "n < 10")
    case True
    then show ?thesis by (subst nat_digits.simps) simp
  next
    case False
    with 1 have "length (nat_digits (n div 10)) \<le> Suc (n div 10)" by simp
    moreover from False have "Suc (n div 10) < n" by linarith
    ultimately show ?thesis using False by (subst nat_digits.simps) simp
  qed
qed

lemma py_str_fits: "\<bar>i\<bar> < 100000 \<Longrightarrow> length (py_str i) \<le> 131072"
proof -
  assume a: "\<bar>i\<bar> < 100000"
  have "length (py_str i) \<le> Suc (Suc (nat \<bar>i\<bar>))"
    using length_nat_digits[of "nat i"] length_nat_digits[of "nat (- i)"]
    by (auto simp: py_str_def)
  with a show ?thesis by simp
qed

lemma length_ascii [simp]: "length (ascii s) = length s"
  by (simp add: ascii_def)

lemma fits_log_row:
  "fits (log_row p r name fol fn api st notes) \<longleftrightarrow>
     length (py_str p) \<le> 131072 \<and> length (py_str r) \<le> 131072 \<and>
     length name \<le> 131072 \<and> length fol \<le> 131072 \<and> length fn \<le> 131072 \<and>
     length api \<le> 131072 \<and> length st \<le> 131072 \<and> length notes \<le> 131072"
  by (simp add: fits_def log_row_def field_size_limit_def)

lemma fits_header: "fits log_header"
  by (simp add: fits_def log_header_def field_size_limit_def)

section \<open>Properties of the stabilization loop\<close>

lemma spec_counter_prev:
  "spec_counter h k = (if h k = prev_sample h k then Suc (count_before h k) else 0)"
  by (cases k) simp_all

lemma loop_step:
  assumes "count_before h k < 3"
  shows "stable_loop (\<lambda>i. Inr (h i)) k (prev_sample h k) (count_before h k) =
         stable_loop (\<lambda>i. Inr (h i)) (Suc k) (prev_sample h (Suc k)) (count_before h (Suc k))"
  using assms
  by (subst stable_loop.simps) (simp add: spec_counter_prev)

lemma count_before_less:
  "\<forall>j<k. spec_counter h j < 3 \<Longrightarrow> count_before h k < 3"
  by (cases k) simp_all

lemma loop_prefix:
  "\<forall>j<k. spec_counter h j < 3 \<Longrightarrow>
   stable_loop (\<lambda>i. Inr (h i)) 0 0 0 =
   stable_loop (\<lambda>i. Inr (h i)) k (prev_sample h k) (count_before h k)"
proof (induction k)
  case 0
  then show ?case by simp
next
  case (Suc k)
  then have "\<forall>j<k. spec_counter h j < 3" by simp
  with Suc.IH loop_step[OF count_before_less, of k h] show ?case by simp
qed

lemma loop_stable:
  assumes "stable_at h n"
  shows "wait_until_stable (\<lambda>i. Inr (h i)) = Some (Inr (h n), Suc n)"
proof -
  from assms have lt: "\<forall>j<n. spec_counter h j < 3" and eq: "spec_counter h n = 3"
    by (simp_all add: stable_at_def)
  have "wait_until_stable (\<lambda>i. Inr (h i)) =
        stable_loop (\<lambda>i. Inr (h i)) (Suc n) (prev_sample h (Suc n)) (count_before h (Suc n))"
    unfolding wait_until_stable_def
    using loop_prefix[OF lt] loop_step[OF count_before_less[OF lt]] by simp
  also have "\<dots> = Some (Inr (h n), Suc n)"
    by (subst stable_loop.simps) (simp add: eq)
  finally show ?thesis .
qed

lemma loop_diverges_aux:
  assumes never: "\<forall>j. spec_counter h j < 3" and run: "stable_loop hs i l c = Some y"
  shows "\<not> (hs = (\<lambda>i. Inr (h i)) \<and> l = prev_sample h i \<and> c = count_before h i)"
proof (rule stable_loop.raw_induct[where P = "\<lambda>hs i l c y.
         \<not> (hs = (\<lambda>i. Inr (h i)) \<and> l = prev_sample h i \<and> c = count_before h i)", OF _ run])
  fix f hs i l c y
  assume IH: "\<And>hs i l c y. f hs i l c = Some y \<Longrightarrow>
                \<not> (hs = (\<lambda>i. Inr (h i)) \<and> l = prev_sample h i \<and> c = count_before h i)"
    and step: "(if c < 3
                then case hs i of Inl e \<Rightarrow> Some (Inl e, i)
                     | Inr height \<Rightarrow> if height = l then f hs (Suc i) l (Suc c)
                                     else f hs (Suc i) height 0
                else Some (Inr l, i)) = Some y"
  show "\<not> (hs = (\<lambda>i. Inr (h i)) \<and> l = prev_sample h i \<and> c = count_before h i)"
  proof
    assume a: "hs = (\<lambda>i. Inr (h i)) \<and> l = prev_sample h i \<and> c = count_before h i"
    then have hs: "hs = (\<lambda>i. Inr (h i))" and l: "l = prev_sample h i" and c: "c = count_before h i"
      by simp_all
    have c3: "c < 3" unfolding c using never by (intro count_before_less) simp
    have "f hs (Suc i) (prev_sample h (Suc i)) (count_before h (Suc i)) = Some y"
    proof (cases "h i = l")
      case True
      with step c3 hs have "f hs (Suc i) l (Suc c) = Some y" by simp
      with True l c show ?thesis by (simp add: spec_counter_prev)
    next
      case False
      with step c3 hs have "f hs (Suc i) (h i) 0 = Some y" by simp
      with False l c show ?thesis by (simp add: spec_counter_prev)
    qed
    from IH[OF this] hs show False by simp
  qed
qed

lemma loop_diverges:
  assumes "\<forall>j. spec_counter h j < 3"
  shows "wait_until_stable (\<lambda>i. Inr (h i)) = None"
proof (cases "wait_until_stable (\<lambda>i. Inr (h i))")
  case None then show ?thesis .
next
  case (Some y)
  then have "stable_loop (\<lambda>i. Inr (h i)) 0 0 0 = Some y" by (simp add: wait_until_stable_def)
  from loop_diverges_aux[OF assms this] show ?thesis by simp
qed

lemma spec_counter_step: "spec_counter h (Suc n) \<le> Suc (spec_counter h n)"
  by simp

lemma first_stable:
  assumes "3 \<le> spec_counter h n"
  shows "\<exists>m\<le>n. stable_at h m"
proof -
  define m where "m = (LEAST k. 3 \<le> spec_counter h k)"
  have m3: "3 \<le> spec_counter h m" unfolding m_def using assms by (rule LeastI)
  have mle: "m \<le> n" unfolding m_def using assms by (rule Least_le)
  have before: "spec_counter h k < 3" if "k < m" for k
    using not_less_Least[of k "\<lambda>k. 3 \<le> spec_counter h k"] that unfolding m_def by auto
  have "spec_counter h m \<le> 3"
  proof (cases m)
    case 0
    then show ?thesis by simp
  next
    case (Suc k)
    with before[of k] spec_counter_step[of h k] show ?thesis by simp
  qed
  with m3 before mle show ?thesis unfolding stable_at_def by auto
qed

lemma loop_returns_iff:
  "(wait_until_stable (\<lambda>i. Inr (h i)) \<noteq> None) = (\<exists>n. 3 \<le> spec_counter h n)"
proof (cases "\<exists>n. 3 \<le> spec_counter h n")
  case True
  then obtain n where "3 \<le> spec_counter h n" ..
  from first_stable[OF this] obtain m where "stable_at h m" by blast
  from loop_stable[OF this] True show ?thesis by simp
next
  case False
  then have "\<forall>j. spec_counter h j < 3" by (simp add: not_le)
  from loop_diverges[OF this] False show ?thesis by simp
qed

lemma example_stable_at_6: "stable_at (\<lambda>i. [10, 10, 10, 20, 20, 20, 20] ! i) 6"
  unfolding stable_at_def by (simp add: eval_nat_numeral All_less_Suc)

lemma example_returns: "wait_until_stable example_heights = Some (Inr 20, 7)"
  using loop_stable[OF example_stable_at_6] by (simp add: example_heights_def)

lemma example_not_stable_at_5: "\<not> stable_at (\<lambda>i. [10, 10, 10, 20, 20, 20, 20] ! i) 5"
  unfolding stable_at_def by (simp add: eval_nat_numeral)

section \<open>What processing one row does to the state\<close>

text \<open>
  Every stage of \<open>process_row\<close> for the item \<open>(p, r)\<close> stays within \<open>row_steps p r\<close>,
  and the metadata rows it appends are the ones its outcome calls for.
\<close>

lemma rs_sleep: "row_steps p r w mds w1 \<Longrightarrow> row_steps p r w mds (sleep ms w1)"
  unfolding sleep_def by (rule rs_emit) simp_all

lemma rs_sleeps: "row_steps p r w mds w1 \<Longrightarrow> row_steps p r w mds (sleeps k ms w1)"
  by (induction k arbitrary: w1) (auto intro: rs_sleep)

lemma rs_log_item:
  "row_steps (it_page it) (it_row it) w mds w1 \<Longrightarrow>
   row_steps (it_page it) (it_row it) w mds (log_item it filename status notes w1)"
  unfolding log_item_def by (auto intro: rs_log)

lemma rs_metadata_item:
  "row_steps (it_page it) (it_row it) w mds w1 \<Longrightarrow>
   row_steps (it_page it) (it_row it) w
     (mds @ [meta_update (it_meta it) filename [] (it_page it) (it_row it)])
     (metadata_item it filename w1)"
  unfolding metadata_item_def by (auto intro: rs_meta)

lemmas rs_intros = rs_emit rs_save rs_sleep rs_sleeps rs_log_item rs_metadata_item

lemma rs_close_modal: "row_steps p r w mds w1 \<Longrightarrow> row_steps p r w mds (close_modal env w1)"
  unfolding close_modal_def by (auto intro!: rs_intros split: sum.splits option.splits bool.splits)

lemma rs_close_confidential:
  "row_steps p r w mds w1 \<Longrightarrow> row_steps p r w mds (close_confidential env w1)"
  unfolding close_confidential_def
  by (auto intro!: rs_intros split: sum.splits option.splits bool.splits)

lemma rs_render_wait: "row_steps p r w mds w1 \<Longrightarrow> row_steps p r w mds (render_wait env w1)"
  unfolding render_wait_def Let_def by (auto intro!: rs_intros split: option.splits)

lemma rs_capture_failed:
  "capture_failed it e w1 = (w2, x) \<Longrightarrow> row_steps (it_page it) (it_row it) w mds w1 \<Longrightarrow>
   row_steps (it_page it) (it_row it) w mds w2"
  unfolding capture_failed_def by (auto intro!: rs_intros)

lemma rs_wait_body:
  "wait_body env it w1 = Some (w2, x) \<Longrightarrow> row_steps (it_page it) (it_row it) w mds w1 \<Longrightarrow>
   row_steps (it_page it) (it_row it) w mds w2"
  unfolding wait_body_def Let_def
  by (auto intro!: rs_intros split: sum.splits option.splits if_splits prod.splits)

lemma rs_print_pdf:
  "print_pdf env it w1 = (w2, x) \<Longrightarrow> row_steps (it_page it) (it_row it) w mds w1 \<Longrightarrow>
   row_steps (it_page it) (it_row it) w mds w2"
  unfolding print_pdf_def
  by (auto intro!: rs_intros elim!: rs_capture_failed split: sum.splits option.splits)

lemma rs_capture_pdf:
  "capture_pdf env it w1 = Some (w2, x) \<Longrightarrow> row_steps (it_page it) (it_row it) w mds w1 \<Longrightarrow>
   row_steps (it_page it) (it_row it) w mds w2"
  unfolding capture_pdf_def
  by (auto intro!: rs_intros elim!: rs_capture_failed rs_print_pdf rs_wait_body
      split: sum.splits option.splits prod.splits)

lemma writes_metadata_outcomes:
  "writes_metadata (ascii ''error'') (ascii ''modal_not_visible'')"
  "writes_metadata (ascii ''error'') (ascii ''modal_trigger_not_found'')"
  "writes_metadata (ascii ''error'') (ascii ''modal_click_failed:'' @ m)"
  "writes_metadata (ascii ''confidential'') (ascii ''no_pdf'')"
  "writes_metadata (ascii ''success'') (ascii ''done'')"
  "\<not> writes_metadata (ascii ''error'') (ascii ''done'')"
  "\<not> writes_metadata (ascii ''skipped'') (ascii ''already_logged'')"
  "\<not> writes_metadata (ascii ''error'') (ascii ''row_index_out_of_bounds'')"
  by (simp_all add: writes_metadata_def ascii_def)

lemma not_success:
  "ascii ''error'' \<noteq> ascii ''success''" "ascii ''confidential'' \<noteq> ascii ''success''"
  "ascii ''skipped'' \<noteq> ascii ''success''"
  by (simp_all add: ascii_def)

lemma md_of_outcomes:
  "md_of it (Inr (ascii ''error'', ascii ''modal_not_visible'')) =
     [meta_update (it_meta it) [] [] (it_page it) (it_row it)]"
  "md_of it (Inr (ascii ''error'', ascii ''modal_trigger_not_found'')) =
     [meta_update (it_meta it) [] [] (it_page it) (it_row it)]"
  "md_of it (Inr (ascii ''error'', ascii ''modal_click_failed:'' @ m)) =
     [meta_update (it_meta it) [] [] (it_page it) (it_row it)]"
  "md_of it (Inr (ascii ''confidential'', ascii ''no_pdf'')) =
     [meta_update (it_meta it) [] [] (it_page it) (it_row it)]"
  "md_of it (Inr (ascii ''success'', ascii ''done'')) =
     [meta_update (it_meta it) (it_out_path it) [] (it_page it) (it_row it)]"
  "md_of it (Inr (ascii ''error'', ascii ''done'')) = []"
  "md_of it (Inr (ascii ''skipped'', ascii ''already_logged'')) = []"
  "md_of it (Inr (ascii ''error'', ascii ''row_index_out_of_bounds'')) = []"
  by (simp_all add: writes_metadata_outcomes not_success)

lemma rs_error_exit:
  "error_exit it note w1 = (w2, res) \<Longrightarrow> writes_metadata (ascii ''error'') note \<Longrightarrow>
   row_steps (it_page it) (it_row it) w mds w1 \<Longrightarrow>
   row_steps (it_page it) (it_row it) w (mds @ md_of it res) w2"
  unfolding error_exit_def by (auto simp: not_success intro!: rs_intros)

lemma rs_save_pdf:
  "save_pdf env it b w1 = (w2, status) \<Longrightarrow> row_steps (it_page it) (it_row it) w mds w1 \<Longrightarrow>
   row_steps (it_page it) (it_row it) w (mds @ md_of it (Inr (status, ascii ''done''))) w2"
  unfolding save_pdf_def
  by (auto simp del: md_of.simps(2) simp add: md_of_outcomes intro!: rs_intros
      split: option.splits if_splits)

lemma rs_capture_and_save:
  "capture_and_save env it w1 = Some (w2, res) \<Longrightarrow> row_steps (it_page it) (it_row it) w mds w1 \<Longrightarrow>
   row_steps (it_page it) (it_row it) w (mds @ md_of it res) w2"
  unfolding capture_and_save_def
  by (auto intro!: rs_intros rs_close_modal
      dest!: rs_save_pdf rs_capture_pdf[OF _ rs_render_wait]
      split: option.splits prod.splits)

lemma rs_wait_modal:
  "wait_modal env it w1 = Some (w2, res) \<Longrightarrow> row_steps (it_page it) (it_row it) w mds w1 \<Longrightarrow>
   row_steps (it_page it) (it_row it) w (mds @ md_of it res) w2"
  unfolding wait_modal_def
  by (auto simp: writes_metadata_outcomes elim!: rs_capture_and_save rs_error_exit
      split: option.splits if_splits)

lemma rs_detect_confidential:
  "detect_confidential env it w1 = Some (w2, res) \<Longrightarrow>
   row_steps (it_page it) (it_row it) w mds w1 \<Longrightarrow>
   row_steps (it_page it) (it_row it) w (mds @ md_of it res) w2"
  unfolding detect_confidential_def
  by (auto simp del: md_of.simps(2) simp add: md_of_outcomes
      intro!: rs_intros rs_close_confidential elim!: rs_wait_modal
      split: option.splits if_splits sum.splits bool.splits)

lemma rs_click_failed:
  "click_failed it e w1 = (w2, res) \<Longrightarrow> row_steps (it_page it) (it_row it) w mds w1 \<Longrightarrow>
   row_steps (it_page it) (it_row it) w (mds @ md_of it res) w2"
  unfolding click_failed_def
  by (auto simp: writes_metadata_outcomes elim!: rs_error_exit)

lemma rs_do_click:
  "do_click env it w1 = Some (w2, res) \<Longrightarrow> row_steps (it_page it) (it_row it) w mds w1 \<Longrightarrow>
   row_steps (it_page it) (it_row it) w (mds @ md_of it res) w2"
  unfolding do_click_def
  by (auto elim!: rs_click_failed rs_detect_confidential[OF _ rs_emit] split: option.splits)

lemma rs_click_trigger:
  "click_trigger env it w1 = Some (w2, res) \<Longrightarrow> row_steps (it_page it) (it_row it) w mds w1 \<Longrightarrow>
   row_steps (it_page it) (it_row it) w (mds @ md_of it res) w2"
  unfolding click_trigger_def
  by (auto simp: writes_metadata_outcomes
      elim!: rs_click_failed rs_do_click rs_error_exit split: option.splits sum.splits bool.splits)

lemma read_row_key [simp]:
  "it_page (read_row udb env page_num row_idx) = page_num"
  "it_row (read_row udb env page_num row_idx) = row_idx"
  by (simp_all add: read_row_def Let_def)

lemma rs_process_row:
  assumes "process_row udb q page_num row_idx dry w = Some (w', res)"
  shows "\<exists>it. row_steps page_num row_idx w (md_of it res) w'"
proof (cases "\<exists>rows env. already_done udb (read_log (log_csv w)) page_num row_idx = Inr False \<and>
                q = Inr rows \<and> \<not> int (length rows) \<le> row_idx \<and> py_index rows row_idx = Inr env")
  case True
  then obtain rows env where
    "already_done udb (read_log (log_csv w)) page_num row_idx = Inr False" "q = Inr rows"
    "\<not> int (length rows) \<le> row_idx" "py_index rows row_idx = Inr env" by blast
  with assms have c: "click_trigger env (read_row udb env page_num row_idx) w = Some (w', res)"
    by (simp add: process_row_def)
  have "row_steps (it_page (read_row udb env page_num row_idx))
      (it_row (read_row udb env page_num row_idx)) w [] w"
    by (rule rs_refl)
  from rs_click_trigger[OF c this] show ?thesis by auto
next
  case False
  with assms have "w' = w \<and> (\<forall>it. md_of it res = [])"
    unfolding process_row_def
    by (auto simp del: md_of.simps(2) simp add: md_of_outcomes split: sum.splits bool.splits if_splits)
  then show ?thesis using rs_refl[of page_num row_idx w] by auto
qed

section \<open>Events, ledger rows and metadata lines appended\<close>

text \<open>
  The fields of the state after each primitive step, and what a sequence of
  \<open>row_steps\<close> has appended: no print, ledger rows of the item only, and the counted
  metadata rows, all of the item.
\<close>

lemma world_emit [simp]:
  "trace (emit ev w) = trace w @ [ev]" "log_csv (emit ev w) = log_csv w"
  "metadata_csv (emit ev w) = metadata_csv w" "out_files (emit ev w) = out_files w"
  by (simp_all add: emit_def)

lemma world_append_log [simp]:
  "trace (append_log p r a b c d e f w) = trace w"
  "log_csv (append_log p r a b c d e f w) = Some (file_rows (log_csv w) @ [log_row p r a b c d e f])"
  "metadata_csv (append_log p r a b c d e f w) = metadata_csv w"
  "out_files (append_log p r a b c d e f w) = out_files w"
  by (simp_all add: append_log_def)

lemma world_append_metadata_row [simp]:
  "trace (append_metadata_row m w) = trace w"
  "log_csv (append_metadata_row m w) = log_csv w"
  "out_files (append_metadata_row m w) = out_files w"
  "file_rows (metadata_csv (append_metadata_row m w)) =
     file_rows (metadata_csv w) @ (if file_rows (metadata_csv w) = [] then [Md_header] else []) @ [Md_line m]"
  by (auto simp: append_metadata_row_def Let_def file_rows_def split: option.splits)

lemma world_save_bytes [simp]:
  "trace (save_bytes path b w) = trace w" "log_csv (save_bytes path b w) = log_csv w"
  "metadata_csv (save_bytes path b w) = metadata_csv w"
  "out_files (save_bytes path b w) = (out_files w)(path \<mapsto> b)"
  by (simp_all add: save_bytes_def)

lemma file_rows_Some [simp]: "file_rows (Some rows) = rows" "file_rows None = []"
  by (simp_all add: file_rows_def)

lemma grows_refl: "grows w w [] [] []"
  by (simp add: grows_def)

lemma grows_trans:
  "grows w w1 ts ls ms \<Longrightarrow> grows w1 w2 ts' ls' ms' \<Longrightarrow> grows w w2 (ts @ ts') (ls @ ls') (ms @ ms')"
  by (simp add: grows_def)

lemma md_rows_append [simp]: "md_rows p r (ms @ ms') = md_rows p r ms @ md_rows p r ms'"
  by (induction ms rule: md_rows.induct) simp_all

lemma meta_update_sel [simp]:
  "md_page (meta_update m f a p r) = p" "md_row_index (meta_update m f a p r) = r"
  "md_pdf_filename (meta_update m f a p r) = f" "md_api_url (meta_update m f a p r) = a"
  by (simp_all add: meta_update_def)

lemma keyed_log_row [simp]: "keyed p' r' (log_row p r a b c d e f) \<longleftrightarrow> p' = p \<and> r' = r"
  by (auto simp: keyed_def log_row_def py_str_inj)

lemma row_steps_grows:
  "row_steps p r w mds w' \<Longrightarrow>
   \<exists>ts ls ms. grows w w' ts ls ms \<and> filter is_print ts = [] \<and> (\<forall>row\<in>set ls. keyed p r row) \<and>
      md_rows p r ms = mds \<and> (\<forall>p' r'. p' \<noteq> p \<or> r' \<noteq> r \<longrightarrow> md_rows p' r' ms = [])"
proof (induction rule: row_steps.induct)
  case rs_refl
  show ?case using grows_refl[of w] by fastforce
next
  case (rs_emit mds w1 ev)
  then obtain ts ls ms where g: "grows w w1 ts ls ms" "filter is_print ts = []"
    "\<forall>row\<in>set ls. keyed p r row" "md_rows p r ms = mds"
    "\<forall>p' r'. p' \<noteq> p \<or> r' \<noteq> r \<longrightarrow> md_rows p' r' ms = []" by blast
  have "grows w (emit ev w1) (ts @ [ev]) ls ms" using g(1) by (simp add: grows_def)
  with g rs_emit.hyps(2) show ?case by (intro exI[of _ "ts @ [ev]"] exI[of _ ls] exI[of _ ms]) simp
next
  case (rs_log mds w1 name fol filename api_url status nt)
  then obtain ts ls ms where g: "grows w w1 ts ls ms" "filter is_print ts = []"
    "\<forall>row\<in>set ls. keyed p r row" "md_rows p r ms = mds"
    "\<forall>p' r'. p' \<noteq> p \<or> r' \<noteq> r \<longrightarrow> md_rows p' r' ms = []" by blast
  have "grows w (append_log p r name fol filename api_url status nt w1) ts
          (ls @ [log_row p r name fol filename api_url status nt]) ms"
    using g(1) by (simp add: grows_def)
  with g show ?case
    by (intro exI[of _ ts] exI[of _ "ls @ [log_row p r name fol filename api_url status nt]"]
        exI[of _ ms]) simp
next
  case (rs_meta mds w1 m filename api_url)
  then obtain ts ls ms where g: "grows w w1 ts ls ms" "filter is_print ts = []"
    "\<forall>row\<in>set ls. keyed p r row" "md_rows p r ms = mds"
    "\<forall>p' r'. p' \<noteq> p \<or> r' \<noteq> r \<longrightarrow> md_rows p' r' ms = []" by blast
  let ?h = "if file_rows (metadata_csv w1) = [] then [Md_header] else []"
  let ?ms = "ms @ ?h @ [Md_line (meta_update m filename api_url p r)]"
  have "grows w (append_metadata_row (meta_update m filename api_url p r) w1) ts ls ?ms"
    using g(1) by (simp add: grows_def)
  with g show ?case
    by (intro exI[of _ ts] exI[of _ ls] exI[of _ ?ms]) auto
next
  case (rs_save mds w1 path b)
  then obtain ts ls ms where g: "grows w w1 ts ls ms" "filter is_print ts = []"
    "\<forall>row\<in>set ls. keyed p r row" "md_rows p r ms = mds"
    "\<forall>p' r'. p' \<noteq> p \<or> r' \<noteq> r \<longrightarrow> md_rows p' r' ms = []" by blast
  have "grows w (save_bytes path b w1) ts ls ms" using g(1) by (simp add: grows_def)
  with g show ?case by blast
qed

section \<open>The items a run has processed\<close>

text \<open>
  What was appended composes: over the rows of a page, over the pages of a run, every
  item is processed once or not at all. An exception leaves \<open>process_row\<close> before
  anything is written to the ledger.
\<close>

lemma untouched_append:
  "untouched p r ts ls ms \<Longrightarrow> untouched p r ts' ls' ms' \<Longrightarrow>
   untouched p r (ts @ ts') (ls @ ls') (ms @ ms')"
  by (simp add: untouched_def)

lemma key_done_untouched:
  "key_done p r ts ls ms \<Longrightarrow> untouched p r ts' ls' ms' \<Longrightarrow>
   key_done p r (ts @ ts') (ls @ ls') (ms @ ms')"
  by (auto simp: untouched_def key_done_def)

lemma untouched_key_done:
  "untouched p r ts ls ms \<Longrightarrow> key_done p r ts' ls' ms' \<Longrightarrow>
   key_done p r (ts @ ts') (ls @ ls') (ms @ ms')"
  by (auto simp: untouched_def key_done_def)

lemma processed_refl: "processed w w {}"
  unfolding processed_def using grows_refl[of w] by (auto simp: untouched_def intro!: exI[of _ "[]"])

lemma processed_trans:
  assumes "processed w w1 D1" "processed w1 w2 D2" "D1 \<inter> D2 = {}"
  shows "processed w w2 (D1 \<union> D2)"
proof -
  from assms(1) obtain ts ls ms where 1: "grows w w1 ts ls ms"
    "\<forall>k\<in>D1. key_done (fst k) (snd k) ts ls ms"
    "\<forall>k. k \<notin> D1 \<longrightarrow> untouched (fst k) (snd k) ts ls ms"
    unfolding processed_def by blast
  from assms(2) obtain ts' ls' ms' where 2: "grows w1 w2 ts' ls' ms'"
    "\<forall>k\<in>D2. key_done (fst k) (snd k) ts' ls' ms'"
    "\<forall>k. k \<notin> D2 \<longrightarrow> untouched (fst k) (snd k) ts' ls' ms'"
    unfolding processed_def by blast
  have g: "grows w w2 (ts @ ts') (ls @ ls') (ms @ ms')" by (rule grows_trans[OF 1(1) 2(1)])
  have d: "key_done (fst k) (snd k) (ts @ ts') (ls @ ls') (ms @ ms')" if "k \<in> D1 \<union> D2" for k
  proof (cases "k \<in> D1")
    case True
    with assms(3) have "k \<notin> D2" by blast
    with True 1(2) 2(3) show ?thesis by (intro key_done_untouched) auto
  next
    case False
    with that have "k \<in> D2" by blast
    with False 1(3) 2(2) show ?thesis by (intro untouched_key_done) auto
  qed
  have u: "untouched (fst k) (snd k) (ts @ ts') (ls @ ls') (ms @ ms')" if "k \<notin> D1 \<union> D2" for k
    using that 1(3) 2(3) by (intro untouched_append) auto
  show ?thesis unfolding processed_def using g d u by blast
qed

lemma print_key_is_print: "print_key p r ev \<Longrightarrow> is_print ev"
  by (cases ev) simp_all

lemma no_print_key: "filter is_print ts = [] \<Longrightarrow> filter (print_key p r) ts = []"
  by (auto simp: filter_empty_conv dest: print_key_is_print)

lemma keyed_unique: "keyed p r row \<Longrightarrow> keyed p' r' row \<Longrightarrow> p' = p \<and> r' = r"
  by (auto simp: keyed_def py_str_inj)

lemma keyed_filter_other:
  "\<forall>row\<in>set ls. keyed p r row \<Longrightarrow> p' \<noteq> p \<or> r' \<noteq> r \<Longrightarrow> filter (keyed p' r') ls = []"
  by (auto simp: filter_empty_conv dest: keyed_unique)

lemma capture_and_save_Inr:
  "capture_and_save env it w1 = Some (w2, res) \<Longrightarrow> \<exists>status. res = Inr (status, ascii ''done'')"
  unfolding capture_and_save_def by (auto split: option.splits prod.splits)

lemma wait_modal_raises: "wait_modal env it w1 = Some (w2, Inl e) \<Longrightarrow> w2 = w1"
  unfolding wait_modal_def
  by (auto simp: error_exit_def dest: capture_and_save_Inr split: option.splits if_splits)

lemma detect_confidential_raises: "detect_confidential env it w1 = Some (w2, Inl e) \<Longrightarrow> w2 = w1"
  unfolding detect_confidential_def
  by (auto dest: wait_modal_raises split: option.splits if_splits sum.splits bool.splits)

lemma do_click_raises:
  "do_click env it w1 = Some (w2, Inl e) \<Longrightarrow> w2 = emit Trigger_clicked w1"
  unfolding do_click_def
  by (auto simp: click_failed_def error_exit_def dest: detect_confidential_raises split: option.splits)

lemma click_trigger_raises:
  "click_trigger env it w1 = Some (w2, Inl e) \<Longrightarrow> w2 = emit Trigger_clicked w1"
  unfolding click_trigger_def
  by (auto simp: click_failed_def error_exit_def dest: do_click_raises
      split: option.splits sum.splits bool.splits)

lemma process_row_raises:
  "process_row udb q page_num row_idx dry w = Some (w', Inl e) \<Longrightarrow>
   w' = w \<or> w' = emit Trigger_clicked w"
  unfolding process_row_def
  by (auto dest: click_trigger_raises split: sum.splits bool.splits if_splits)

lemma process_row_raises_files:
  assumes "process_row udb q page_num row_idx dry w = Some (w', Inl e)"
  shows "log_csv w' = log_csv w" "metadata_csv w' = metadata_csv w" "out_files w' = out_files w"
  using process_row_raises[OF assms] by auto

lemma md_ok_md_of: "md_ok status note (md_of it (Inr (status, note)))"
  by (simp add: md_ok_def)

lemma do_row_processed:
  assumes "do_row udb pe p dry i w = Some w'"
  shows "processed w w' {(p, int i)}"
proof (cases "process_row udb (row_queries pe i) p (int i) dry w")
  case None
  with assms show ?thesis by (simp add: do_row_def)
next
  case (Some a)
  then obtain w1 res where prow: "process_row udb (row_queries pe i) p (int i) dry w = Some (w1, res)"
    by (cases a) auto
  from rs_process_row[OF prow] obtain it where "row_steps p (int i) w (md_of it res) w1" ..
  from row_steps_grows[OF this] obtain ts ls ms where
    g: "grows w w1 ts ls ms" "filter is_print ts = []" "\<forall>row\<in>set ls. keyed p (int i) row"
       "md_rows p (int i) ms = md_of it res"
       "\<forall>p' r'. p' \<noteq> p \<or> r' \<noteq> int i \<longrightarrow> md_rows p' r' ms = []" by blast
  show ?thesis
  proof (cases res)
    case (Inr sn)
    obtain status nte where sn: "sn = (status, nte)" by (cases sn)
    let ?ts = "ts @ [Print_row p (int i) status nte]"
    from prow Inr sn assms have w': "w' = emit (Print_row p (int i) status nte) w1"
      by (simp add: do_row_def)
    have gr: "grows w w' ?ts ls ms" using g(1) unfolding w' by (simp add: grows_def)
    have "md_ok status nte (md_rows p (int i) ms)"
      unfolding g(4) Inr sn by (rule md_ok_md_of)
    then have kd: "key_done p (int i) ?ts ls ms"
      using g(2) by (simp add: key_done_def no_print_key)
    have ut: "untouched p' r' ?ts ls ms" if "p' \<noteq> p \<or> r' \<noteq> int i" for p' r'
      using that g(2,3,5) keyed_filter_other[OF g(3) that]
      by (auto simp: untouched_def no_print_key)
    show ?thesis unfolding processed_def
      using gr kd ut by (intro exI[of _ ?ts] exI[of _ ls] exI[of _ ms]) auto
  next
    case (Inl e)
    let ?ts = "ts @ [Print_unhandled e]"
    let ?row = "unhandled_row p (int i) (exn_msg e)"
    from prow Inl assms have w': "w' = append_log p (int i) [] [] [] [] (ascii ''error'')
        (ascii ''unhandled:'' @ exn_msg e) (emit (Print_unhandled e) w1)"
      by (simp add: do_row_def)
    from process_row_raises_files(1)[OF prow[unfolded Inl]] g(1) have ls: "ls = []"
      by (simp add: grows_def)
    have gr: "grows w w' ?ts [?row] ms"
      using g(1) unfolding w' ls by (simp add: grows_def unhandled_row_def)
    have kd: "key_done p (int i) ?ts [?row] ms"
      using g(2,4) Inl by (auto simp: key_done_def no_print_key unhandled_row_def)
    have ut: "untouched p' r' ?ts [?row] ms" if "p' \<noteq> p \<or> r' \<noteq> int i" for p' r'
      using that g(2,5) by (auto simp: untouched_def no_print_key unhandled_row_def)
    show ?thesis unfolding processed_def
      using gr kd ut by (intro exI[of _ ?ts] exI[of _ "[?row]"] exI[of _ ms]) auto
  qed
qed

lemma run_rows_processed:
  "run_rows udb pe p dry rs w = Some w' \<Longrightarrow> distinct rs \<Longrightarrow>
   processed w w' ((\<lambda>i. (p, int i)) ` set rs)"
proof (induction rs arbitrary: w)
  case Nil
  then show ?case by (simp add: processed_refl)
next
  case (Cons i rs)
  from Cons.prems(1) obtain w1 where 1: "do_row udb pe p dry i w = Some w1"
    and 2: "run_rows udb pe p dry rs w1 = Some w'"
    by (auto split: option.splits)
  from Cons.prems(2) have d: "distinct rs" "i \<notin> set rs" by simp_all
  have "processed w w' ({(p, int i)} \<union> (\<lambda>i. (p, int i)) ` set rs)"
    using do_row_processed[OF 1] Cons.IH[OF 2 d(1)] d(2) by (intro processed_trans) auto
  then show ?case by simp
qed

lemma processed_quiet:
  assumes "grows w w' ts ls ms" "filter is_print ts = []" "\<forall>p r. filter (keyed p r) ls = []"
    "\<forall>p r. md_rows p r ms = []"
  shows "processed w w' {}"
  unfolding processed_def using assms
  by (intro exI[of _ ts] exI[of _ ls] exI[of _ ms]) (simp add: untouched_def no_print_key)

lemma processed_sleep: "processed w (sleep ms w) {}"
  by (rule processed_quiet[of _ _ "[Sleep ms]" "[]" "[]"]) (simp_all add: grows_def sleep_def)

lemma click_page_cases: "click_page udb btns pnum click w = w \<or> click_page udb btns pnum click w = sleep 1000 w"
  by (induction btns) (auto simp: Let_def split: option.splits sum.splits)

lemma processed_goto_page: "processed w (goto_page udb pe pnum w) {}"
proof -
  have "goto_page udb pe pnum w = w \<or> goto_page udb pe pnum w = sleep 1000 w"
    unfolding goto_page_def using click_page_cases by (auto split: sum.splits)
  then show ?thesis using processed_refl processed_sleep by metis
qed

lemma py_str_hd: "\<exists>c cs. py_str p = c # cs \<and> (c = 45 \<or> ascii_digit c)"
proof -
  obtain c cs where "nat_digits (nat \<bar>p\<bar>) = c # cs"
    using nat_digits_ne[of "nat \<bar>p\<bar>"] by (cases "nat_digits (nat \<bar>p\<bar>)") auto
  moreover from this nat_digits_all[of "nat \<bar>p\<bar>"] have "ascii_digit c" by simp
  ultimately show ?thesis by (cases "p < 0") (auto simp: py_str_def)
qed

lemma not_keyed_header: "\<not> keyed p r log_header"
proof
  assume "keyed p r log_header"
  then have "py_str p = ascii ''page''" by (simp add: keyed_def log_header_def)
  with py_str_hd[of p] show False by (auto simp: ascii_def ascii_digit_def)
qed

lemma processed_init_logs: "processed w (init_logs w) {}"
proof -
  let ?ls = "case log_csv w of None \<Rightarrow> [log_header] | Some rows \<Rightarrow> []"
  let ?ms = "case metadata_csv w of None \<Rightarrow> [Md_header] | Some rows \<Rightarrow> []"
  have "grows w (init_logs w) [] ?ls ?ms"
    by (auto simp: grows_def init_logs_def split: option.splits)
  moreover have "\<forall>p r. filter (keyed p r) ?ls = []"
    by (auto simp: not_keyed_header split: option.splits)
  moreover have "\<forall>p r. md_rows p r ?ms = []" by (auto split: option.splits)
  ultimately show ?thesis by (intro processed_quiet[of _ _ "[]" ?ls ?ms]) simp_all
qed

lemma processed_step0: "processed w w1 {} \<Longrightarrow> processed w1 w2 D \<Longrightarrow> processed w w2 D"
  using processed_trans[of w w1 "{}" w2 D] by simp

lemma processed_step0': "processed w w1 D \<Longrightarrow> processed w1 w2 {} \<Longrightarrow> processed w w2 D"
  using processed_trans[of w w1 D w2 "{}"] by simp

lemma do_page_processed:
  assumes "do_page udb pe a p w = Some (w', x)"
  shows "\<exists>D. processed w w' D \<and> D \<subseteq> {p} \<times> UNIV \<and>
           (x = None \<longrightarrow> (\<exists>n. rows_found pe = Inr n \<and> D = (\<lambda>i. (p, int i)) ` {..<n}))"
proof -
  let ?w1 = "goto_page udb pe p w"
  have g: "processed w ?w1 {}" by (rule processed_goto_page)
  show ?thesis
  proof (cases "x")
    case (Some e)
    with assms have "w' = ?w1"
      unfolding do_page_def Let_def by (auto split: option.splits sum.splits if_splits)
    with g Some show ?thesis by (intro exI[of _ "{}"]) simp
  next
    case None
    with assms obtain n w2 where n: "rows_found pe = Inr n"
      and r: "run_rows udb pe p (dry_run a) [0..<n] ?w1 = Some w2"
      and w': "w' = sleep (page_delay a) w2"
      unfolding do_page_def Let_def by (auto split: option.splits sum.splits if_splits)
    have "processed ?w1 w2 ((\<lambda>i. (p, int i)) ` set [0..<n])"
      by (rule run_rows_processed[OF r]) simp
    then have "processed w w' ((\<lambda>i. (p, int i)) ` set [0..<n])"
      unfolding w' using g processed_sleep by (blast intro: processed_step0 processed_step0')
    moreover have "set [0..<n] = {..<n}" by auto
    ultimately show ?thesis using n None by (intro exI[of _ "(\<lambda>i. (p, int i)) ` {..<n}"]) auto
  qed
qed

lemma run_pages_processed:
  "run_pages udb ps a pnums w = Some (w', x) \<Longrightarrow> distinct pnums \<Longrightarrow>
   \<exists>D. processed w w' D \<and> D \<subseteq> set pnums \<times> UNIV \<and>
     (x = None \<longrightarrow> (\<forall>p\<in>set pnums. \<exists>n. rows_found (ps p) = Inr n \<and> (\<forall>i<n. (p, int i) \<in> D)))"
proof (induction pnums arbitrary: w)
  case Nil
  then show ?case using processed_refl by auto
next
  case (Cons p pnums)
  from Cons.prems(1) obtain w1 y where 1: "do_page udb (ps p) a p w = Some (w1, y)"
    by (auto split: option.splits)
  from do_page_processed[OF 1] obtain D1 where D1: "processed w w1 D1" "D1 \<subseteq> {p} \<times> UNIV"
    "y = None \<longrightarrow> (\<exists>n. rows_found (ps p) = Inr n \<and> D1 = (\<lambda>i. (p, int i)) ` {..<n})" by blast
  show ?case
  proof (cases y)
    case (Some e)
    with 1 Cons.prems(1) have "w' = w1" "x = Some e" by auto
    with D1 show ?thesis by (intro exI[of _ D1]) auto
  next
    case None
    with 1 Cons.prems(1) have 2: "run_pages udb ps a pnums w1 = Some (w', x)" by simp
    from Cons.prems(2) have d: "distinct pnums" "p \<notin> set pnums" by simp_all
    from Cons.IH[OF 2 d(1)] obtain D2 where D2: "processed w1 w' D2" "D2 \<subseteq> set pnums \<times> UNIV"
      "x = None \<longrightarrow> (\<forall>q\<in>set pnums. \<exists>n. rows_found (ps q) = Inr n \<and> (\<forall>i<n. (q, int i) \<in> D2))"
      by blast
    have disj: "D1 \<inter> D2 = {}" using D1(2) D2(2) d(2) by auto
    have p12: "processed w w' (D1 \<union> D2)" by (rule processed_trans[OF D1(1) D2(1) disj])
    have sub: "D1 \<union> D2 \<subseteq> set (p # pnums) \<times> UNIV" using D1(2) D2(2) by auto
    have all: "\<forall>q\<in>set (p # pnums). \<exists>n. rows_found (ps q) = Inr n \<and> (\<forall>i<n. (q, int i) \<in> D1 \<union> D2)"
      if "x = None"
    proof
      fix q assume q: "q \<in> set (p # pnums)"
      show "\<exists>n. rows_found (ps q) = Inr n \<and> (\<forall>i<n. (q, int i) \<in> D1 \<union> D2)"
      proof (cases "q = p")
        case True
        with D1(3) None show ?thesis by auto
      next
        case False
        with q D2(3) that show ?thesis by auto
      qed
    qed
    show ?thesis using p12 sub all by (intro exI[of _ "D1 \<union> D2"]) blast
  qed
qed

lemma distinct_page_range: "distinct (page_range udb st a)"
  by (simp add: page_range_def Let_def)

lemma main_processed:
  assumes "main udb st a w = Some (w', x)"
  shows "\<exists>D. processed w w' D \<and>
     (startup st = None \<longrightarrow> x = teardown st \<longrightarrow>
      (\<forall>e. run_pages udb (pages st) a (page_range udb st a) (init_logs w) \<noteq> Some (w', Some e)) \<longrightarrow>
      (\<forall>p\<in>set (page_range udb st a). \<exists>n. rows_found (pages st p) = Inr n \<and> (\<forall>i<n. (p, int i) \<in> D)))"
proof (cases "startup st")
  case (Some e)
  with assms have "w' = init_logs w" by (simp add: main_def Let_def)
  with processed_init_logs Some show ?thesis by auto
next
  case None
  with assms obtain y where r: "run_pages udb (pages st) a (page_range udb st a) (init_logs w) = Some (w', y)"
    by (auto simp: main_def Let_def split: option.splits)
  from run_pages_processed[OF r distinct_page_range] obtain D where
    D: "processed (init_logs w) w' D"
    "y = None \<longrightarrow> (\<forall>p\<in>set (page_range udb st a). \<exists>n. rows_found (pages st p) = Inr n \<and> (\<forall>i<n. (p, int i) \<in> D))"
    by blast
  have "processed w w' D" by (rule processed_step0[OF processed_init_logs D(1)])
  moreover have "y = None" if "\<forall>e. run_pages udb (pages st) a (page_range udb st a) (init_logs w) \<noteq> Some (w', Some e)"
    using that r by (cases y) auto
  ultimately show ?thesis using D(2) by blast
qed

section \<open>Termination\<close>














lemma print_key_filter:
  "filter (print_key p r) ts = [] \<longleftrightarrow> (\<forall>status note. Print_row p r status note \<notin> set ts)"
proof
  assume e: "filter (print_key p r) ts = []"
  show "\<forall>status note. Print_row p r status note \<notin> set ts"
  proof (intro allI notI)
    fix status nte
    assume "Print_row p r status nte \<in> set ts"
    then have "Print_row p r status nte \<in> set (filter (print_key p r) ts)" by simp
    then show False unfolding e by simp
  qed
next
  assume a: "\<forall>status note. Print_row p r status note \<notin> set ts"
  have "\<not> print_key p r ev" if "ev \<in> set ts" for ev
  proof
    assume "print_key p r ev"
    then obtain s n where "ev = Print_row p r s n" by (cases ev) auto
    with that a show False by blast
  qed
  then show "filter (print_key p r) ts = []" by (simp add: filter_empty_conv)
qed

lemma processed_covered:
  assumes "processed w w' D"
  shows "covered w w'"
proof -
  from assms obtain ts ls ms where g: "grows w w' ts ls ms"
    and dn: "\<forall>k\<in>D. key_done (fst k) (snd k) ts ls ms"
    and rest: "\<forall>k. k \<notin> D \<longrightarrow> untouched (fst k) (snd k) ts ls ms"
    unfolding processed_def by blast
  have key: "key_done p r ts ls ms \<or> untouched p r ts ls ms" for p r
    using dn rest by (cases "(p, r) \<in> D") force+
  have printed: "md_ok status nt (md_rows p r ms)"
    if mem: "Print_row p r status nt \<in> set ts" for p r status nt
  proof -
    from mem have ne: "filter (print_key p r) ts \<noteq> []" by (auto simp: print_key_filter)
    with key[of p r] obtain st nt' where f: "filter (print_key p r) ts = [Print_row p r st nt']"
      and ok: "md_ok st nt' (md_rows p r ms)"
      unfolding key_done_def untouched_def by blast
    from mem have "Print_row p r status nt \<in> set (filter (print_key p r) ts)" by simp
    then have "st = status" "nt' = nt" unfolding f by simp_all
    with ok show ?thesis by simp
  qed
  have silent: "md_rows p r ms = []" if "\<forall>status note. Print_row p r status note \<notin> set ts" for p r
  proof -
    from that have "filter (print_key p r) ts = []" by (simp add: print_key_filter)
    with key[of p r] show ?thesis unfolding key_done_def untouched_def by auto
  qed
  have each: "(\<forall>status note. Print_row p r status note \<in> set ts \<longrightarrow>
              (writes_metadata status note \<longrightarrow>
                 (\<exists>m. md_rows p r ms = [m] \<and> md_api_url m = [] \<and>
                      (status \<noteq> ascii ''success'' \<longrightarrow> md_pdf_filename m = []))) \<and>
              (status = ascii ''skipped'' \<or>
               (status = ascii ''error'' \<and> note = ascii ''row_index_out_of_bounds'') \<longrightarrow>
                 md_rows p r ms = [])) \<and>
           ((\<forall>status note. Print_row p r status note \<notin> set ts) \<longrightarrow> md_rows p r ms = [])" for p r
  proof (intro conjI allI impI)
    fix status nte
    assume mem: "Print_row p r status nte \<in> set ts" and "writes_metadata status nte"
    with printed[OF mem]
    show "\<exists>m. md_rows p r ms = [m] \<and> md_api_url m = [] \<and>
              (status \<noteq> ascii ''success'' \<longrightarrow> md_pdf_filename m = [])"
      by (simp add: md_ok_def)
  next
    fix status nte
    assume mem: "Print_row p r status nte \<in> set ts"
      and which: "status = ascii ''skipped'' \<or>
           (status = ascii ''error'' \<and> nte = ascii ''row_index_out_of_bounds'')"
    from which have "\<not> writes_metadata status nte"
    proof (elim disjE)
      assume "status = ascii ''skipped''"
      then show ?thesis by (simp add: writes_metadata_def ascii_def)
    next
      assume "status = ascii ''error'' \<and> nte = ascii ''row_index_out_of_bounds''"
      then show ?thesis using writes_metadata_outcomes(8) by simp
    qed
    with printed[OF mem] show "md_rows p r ms = []" by (simp add: md_ok_def)
  next
    assume "\<forall>status note. Print_row p r status note \<notin> set ts"
    then show "md_rows p r ms = []" by (rule silent)
  qed
  from g have "trace w' = trace w @ ts"
    "file_rows (metadata_csv w') = file_rows (metadata_csv w) @ ms"
    by (simp_all add: grows_def)
  then show ?thesis unfolding covered_def using each
    by (intro exI[of _ ts] exI[of _ ms] conjI allI) blast+
qed

text \<open>
  A run that has gone through some pages and through the first rows of the next one.
\<close>

lemma run_to_processed:
  assumes "run_to udb st a ps q k w = Some w'" "distinct (ps @ [q])"
  shows "\<exists>D. processed w w' D"
proof -
  from assms(1) obtain w1 where
    1: "run_pages udb (pages st) a ps (init_logs w) = Some (w1, None)"
    and 2: "run_rows udb (pages st q) q (dry_run a) [0..<k] (goto_page udb (pages st q) q w1) = Some w'"
    unfolding run_to_def by (auto split: option.splits prod.splits)
  from assms(2) have d: "distinct ps" "q \<notin> set ps" by simp_all
  from run_pages_processed[OF 1 d(1)] obtain D1 where
    D1: "processed (init_logs w) w1 D1" "D1 \<subseteq> set ps \<times> UNIV" by blast
  have D2: "processed (goto_page udb (pages st q) q w1) w' ((\<lambda>i. (q, int i)) ` set [0..<k])"
    by (rule run_rows_processed[OF 2]) simp
  have "processed w1 w' ((\<lambda>i. (q, int i)) ` set [0..<k])"
    by (rule processed_step0[OF processed_goto_page D2])
  moreover have "D1 \<inter> (\<lambda>i. (q, int i)) ` set [0..<k] = {}" using D1(2) d(2) by auto
  ultimately have "processed (init_logs w) w' (D1 \<union> (\<lambda>i. (q, int i)) ` set [0..<k])"
    using D1(1) by (intro processed_trans)
  then have "processed w w' (D1 \<union> (\<lambda>i. (q, int i)) ` set [0..<k])"
    by (rule processed_step0[OF processed_init_logs])
  then show ?thesis ..
qed

lemma run_rows_append:
  "run_rows udb pe p dry (rs @ rs') w =
     (case run_rows udb pe p dry rs w of None \<Rightarrow> None | Some w1 \<Rightarrow> run_rows udb pe p dry rs' w1)"
  by (induction rs arbitrary: w) (auto split: option.splits)

lemma run_pages_append:
  "run_pages udb ps a (pnums @ pnums') w =
     (case run_pages udb ps a pnums w of
        None \<Rightarrow> None
      | Some (w1, Some e) \<Rightarrow> Some (w1, Some e)
      | Some (w1, None) \<Rightarrow> run_pages udb ps a pnums' w1)"
  by (induction pnums arbitrary: w) (auto split: option.splits)

lemma run_to_hangs:
  assumes up: "startup st = None"
    and range: "page_range udb st a = ps @ q # rest"
    and wait: "\<forall>e. rows_wait (pages st q) = Some e \<longrightarrow> is_timeout e"
    and found: "rows_found (pages st q) = Inr n" and k: "k < n"
    and to: "run_to udb st a ps q k w = Some w'"
    and hang: "process_row udb (row_queries (pages st q) k) q (int k) (dry_run a) w' = None"
  shows "main udb st a w = None"
proof -
  from to obtain w1 where
    1: "run_pages udb (pages st) a ps (init_logs w) = Some (w1, None)"
    and 2: "run_rows udb (pages st q) q (dry_run a) [0..<k] (goto_page udb (pages st q) q w1) = Some w'"
    unfolding run_to_def by (auto split: option.splits prod.splits)
  from k have "[0..<n] = [0..<k] @ k # [Suc k..<n]"
    by (metis less_imp_le_nat upt_add_eq_append upt_conv_Cons le0 le_add_diff_inverse plus_nat.add_0)
  then have "run_rows udb (pages st q) q (dry_run a) [0..<n] (goto_page udb (pages st q) q w1) = None"
    using 2 hang by (simp add: run_rows_append do_row_def)
  then have "do_page udb (pages st q) a q w1 = None"
    using wait found unfolding do_page_def Let_def by (auto split: option.splits)
  then have "run_pages udb (pages st) a (ps @ q # rest) (init_logs w) = None"
    using 1 by (simp add: run_pages_append)
  then show ?thesis using up range by (simp add: main_def Let_def)
qed


section \<open>Evaluation on concrete rows and listings\<close>

lemma constant_heights: "c \<noteq> 0 \<Longrightarrow> wait_until_stable (\<lambda>i. Inr c) = Some (Inr c, 4)"
proof -
  assume "c \<noteq> 0"
  then have "stable_at (\<lambda>i. c) 3"
    unfolding stable_at_def by (simp add: eval_nat_numeral All_less_Suc)
  from loop_stable[OF this] show ?thesis by simp
qed

lemma start_fields:
  "log_csv start_world = Some [log_header]" "metadata_csv start_world = Some [Md_header]"
  "out_files start_world = Map.empty" "trace start_world = []"
  by (simp_all add: start_world_def)

lemmas stage_defs = click_trigger_def do_click_def detect_confidential_def wait_modal_def
      capture_and_save_def capture_pdf_def wait_body_def print_pdf_def save_pdf_def
      render_wait_def close_modal_def close_confidential_def click_failed_def error_exit_def
      capture_failed_def log_item_def metadata_item_def

lemma sleeps_4: "sleeps 4 ms w = sleep ms (sleep ms (sleep ms (sleep ms w)))"
  by (simp add: eval_nat_numeral)

lemma normal_fields:
  "cells normal_env = Inr [Some (ascii ''F1''), Some (ascii '' Ana ''), Some (ascii ''Ruiz'')]"
  "trigger_first normal_env = Inr True"
  "trigger_second normal_env = Inr True"
  "trigger_click normal_env = None"
  "conf_wait normal_env = Some timeout_error"
  "conf_visible normal_env = Inr False"
  "conf_close_btn normal_env = Inr True"
  "conf_close_click normal_env = None"
  "conf_escape normal_env = None"
  "modal_wait normal_env = None"
  "content_wait normal_env = None"
  "modal_resize normal_env = None"
  "new_page normal_env = None"
  "outer_html normal_env = None"
  "set_content normal_env = None"
  "body_wait normal_env = None"
  "heights normal_env = (\<lambda>i. Inr 600)"
  "tmp_resize normal_env = None"
  "pdf normal_env = Inr [37, 80, 68, 70]"
  "tmp_close normal_env = None"
  "save normal_env = None"
  "close_btn normal_env = Inr True"
  "close_click normal_env = None"
  "escape normal_env = None"
  by (simp_all add: normal_env_def)

lemma timeout_error_simps [simp]: "is_timeout timeout_error"
  by (simp add: timeout_error_def)

lemma read_row_cells:
  "cells env' = cells env \<Longrightarrow> read_row udb env' p r = read_row udb env p r"
  by (simp add: read_row_def extract_metadata_from_row_def)

lemma alternating_diverges:
  "wait_until_stable (\<lambda>i. Inr (if even i then 100 else 200)) = None"
proof -
  have "spec_counter (\<lambda>i. if even i then 100 else 200) j = 0" for j
    by (cases j) simp_all
  then show ?thesis by (intro loop_diverges) simp
qed

lemma normal_item_any:
  "read_row latin1_db normal_env p r =
     \<lparr>it_page = p, it_row = r, it_name = ascii ''Ana'', it_folio = ascii ''F1'',
      it_meta = [ascii ''F1'', ascii ''Ana'', ascii ''Ruiz''] @ replicate 8 [],
      it_out_path = ascii ''rnpdno_pdfs/Ana_F1.pdf''\<rparr>"
  by (simp add: read_row_def extract_metadata_from_row_def normal_env_def Let_def py_strip_def strip_with_def
      py_isspace_char_def ascii_space_def ascii_def sanitize_filename_def py_slice_to_def
      keep_char_def py_isalnum_def ascii_letter_def ascii_digit_def OUTPUT_DIR_def latin1_db_def)

lemma variant_items:
  "read_row udb failing_env p r = read_row udb normal_env p r"
  "read_row udb no_modal_env p r = read_row udb normal_env p r"
  "read_row udb unstable_env p r = read_row udb normal_env p r"
  "read_row udb crashing_env p r = read_row udb normal_env p r"
  by (rule read_row_cells, simp add: failing_env_def no_modal_env_def unstable_env_def
      crashing_env_def)+

lemma done_fields:
  "log_csv done_first = Some [log_header,
      log_row 1 0 (ascii ''Ana'') (ascii ''F1'') (ascii ''rnpdno_pdfs/Ana_F1.pdf'') [] (ascii ''success'') []]"
  "metadata_csv done_first = Some [Md_header]"
  "out_files done_first = Map.empty" "trace done_first = []"
  by (simp_all add: done_first_def)

lemmas run_defs = main_def page_range_def run_pages.simps do_page_def goto_page_def do_row_def
  process_row_def already_done_read rows_read_def fits_header fits_log_row py_str_fits
  success_row_header success_row_log_row py_index_def
  init_logs_def one_page_def demo_site_def demo_args_def

lemmas eval_simps = stage_defs Let_def sleeps_4 sleep_def ROW_DELAY_def start_fields done_fields
  normal_fields normal_item_any variant_items constant_heights

lemma run_normal:
  "(case main latin1_db (demo_site 1 (\<lambda>i. Inr [normal_env])) demo_args start_world of
      None \<Rightarrow> False
    | Some (w', x) \<Rightarrow> x = None \<and>
        out_files w' (ascii ''rnpdno_pdfs/Ana_F1.pdf'') = Some [37, 80, 68, 70] \<and>
        trace w' = [Trigger_clicked, Sleep 4000, Sleep 3000, Tmp_page_opened, Sleep 300, Sleep 300,
                    Sleep 300, Sleep 300, Pdf_rendered, Tmp_page_closed, Modal_close_clicked,
                    Sleep 120, Print_row 1 0 (ascii ''success'') (ascii ''done''), Sleep 500])"
  by (simp add: run_defs eval_simps)

lemma run_skipped:
  "(case main latin1_db (demo_site 1 (\<lambda>i. Inr [normal_env])) demo_args done_first of
      None \<Rightarrow> False
    | Some (w', x) \<Rightarrow> x = None \<and>
        trace w' = [Print_row 1 0 (ascii ''skipped'') (ascii ''already_logged''), Sleep 500] \<and>
        metadata_csv w' = metadata_csv done_first)"
  by (simp add: run_defs eval_simps)

lemma run_failing:
  "(case main latin1_db (demo_site 1 (\<lambda>i. Inr [failing_env])) demo_args start_world of
      None \<Rightarrow> False
    | Some (w', x) \<Rightarrow> x = None \<and>
        Print_row 1 0 (ascii ''error'') (ascii ''done'') \<in> set (trace w') \<and>
        metadata_csv w' = metadata_csv start_world)"
  by (simp add: run_defs eval_simps failing_env_def)

lemma run_out_of_bounds:
  "(case main latin1_db (demo_site 1 (\<lambda>i. Inr [])) demo_args start_world of
      None \<Rightarrow> False
    | Some (w', x) \<Rightarrow> x = None \<and>
        trace w' = [Print_row 1 0 (ascii ''error'') (ascii ''row_index_out_of_bounds''), Sleep 500] \<and>
        metadata_csv w' = metadata_csv start_world)"
  by (simp add: run_defs eval_simps)

lemma run_unhandled:
  "(case main latin1_db (demo_site 1 (\<lambda>i. Inl crash)) demo_args start_world of
      None \<Rightarrow> False
    | Some (w', x) \<Rightarrow> x = None \<and> trace w' = [Print_unhandled crash, Sleep 500] \<and>
        log_csv w' = Some [log_header, unhandled_row 1 0 (ascii ''Target closed'')] \<and>
        metadata_csv w' = metadata_csv start_world)"
  by (simp add: run_defs eval_simps crash_def unhandled_row_def)

lemma long_ledger_raises:
  "already_done latin1_db (read_log long_ledger) 1 1 = Inl field_too_large"
  by (simp add: already_done_read rows_read_def long_ledger_def fits_header fits_log_row
      unhandled_row_def py_str_fits success_row_header success_row_log_row)



lemma run_hanging:
  "(case run_to latin1_db hanging_site demo_args [] 1 1 start_world of
      None \<Rightarrow> False
    | Some w1 \<Rightarrow>
        trace w1 = [Trigger_clicked, Sleep 4000, Sleep 3000, Tmp_page_opened, Sleep 300, Sleep 300,
                    Sleep 300, Sleep 300, Pdf_rendered, Tmp_page_closed, Modal_close_clicked,
                    Sleep 120, Print_row 1 0 (ascii ''success'') (ascii ''done'')] \<and>
        process_row latin1_db (row_queries (pages hanging_site 1) 1) 1 1 True w1 = None)"
  by (simp add: run_to_def hanging_site_def run_defs eval_simps unstable_env_def
      alternating_diverges)

section \<open>The claims\<close>



text \<open>
  C2, as stated, fails. In runs over one page with one row the metadata file is left
  as it was, so the item of the page gets no metadata row in that run, when the item
  is skipped because the ledger already holds its success, when its capture fails
  (outcome \<^verbatim>\<open>("error", "done")\<close>), when its index is out of bounds, and when its
  processing raises an exception that \<^verbatim>\<open>main\<close> catches.
\<close>

theorem total_coverage_counterexample:
  "(case main latin1_db (demo_site 1 (\<lambda>i. Inr [normal_env])) demo_args done_first of
      None \<Rightarrow> False
    | Some (w', x) \<Rightarrow> x = None \<and>
        trace w' = [Print_row 1 0 (ascii ''skipped'') (ascii ''already_logged''), Sleep 500] \<and>
        metadata_csv w' = metadata_csv done_first) \<and>
   (case main latin1_db (demo_site 1 (\<lambda>i. Inr [failing_env])) demo_args start_world of
      None \<Rightarrow> False
    | Some (w', x) \<Rightarrow> x = None \<and>
        Print_row 1 0 (ascii ''error'') (ascii ''done'') \<in> set (trace w') \<and>
        metadata_csv w' = metadata_csv start_world) \<and>
   (case main latin1_db (demo_site 1 (\<lambda>i. Inr [])) demo_args start_world of
      None \<Rightarrow> False
    | Some (w', x) \<Rightarrow> x = None \<and>
        trace w' = [Print_row 1 0 (ascii ''error'') (ascii ''row_index_out_of_bounds''), Sleep 500] \<and>
        metadata_csv w' = metadata_csv start_world) \<and>
   (case main latin1_db (demo_site 1 (\<lambda>i. Inl crash)) demo_args start_world of
      None \<Rightarrow> False
    | Some (w', x) \<Rightarrow> x = None \<and> trace w' = [Print_unhandled crash, Sleep 500] \<and>
        log_csv w' = Some [log_header, unhandled_row 1 0 (ascii ''Target closed'')] \<and>
        metadata_csv w' = metadata_csv start_world)"
  using run_skipped run_failing run_out_of_bounds run_unhandled by simp

text \<open>
  C2, amended. Take a run of \<^verbatim>\<open>main\<close> in the state where it ended or, when it does
  not end, in a state it has reached: the pages \<open>ps\<close> are done and the rows before
  row \<open>k\<close> of the next page \<open>q\<close>. In that run, for every item: when its outcome was
  printed and is a success, confidential, or one of the error exits taken before the
  capture (trigger not found, click failed, modal not visible), exactly one metadata
  row was appended for the item, with an empty \<^verbatim>\<open>api_url\<close> and, unless the outcome
  is a success, an empty \<^verbatim>\<open>pdf_filename\<close>; when the item was skipped or its index
  was out of bounds, and when no outcome was printed for it, no metadata row was
  appended for it. That is \<open>covered\<close>. A call of \<open>process_row\<close> that raises leaves
  the metadata file as it was, and \<^verbatim>\<open>main\<close> then prints no outcome for the item.
  And a run in which \<open>process_row\<close> does not return for the item \<open>(q, k)\<close> is a run
  that does not end.
\<close>

theorem metadata_coverage:
  "(main udb st a w = Some (w', x) \<longrightarrow> covered w w') \<and>
   (distinct (ps @ [q]) \<and> run_to udb st a ps q k w = Some w' \<longrightarrow> covered w w') \<and>
   (process_row udb (row_queries pe i) p (int i) dry w1 = Some (w2, Inl e) \<longrightarrow>
      metadata_csv w2 = metadata_csv w1 \<and>
      (\<exists>w3. do_row udb pe p dry i w1 = Some w3 \<and> metadata_csv w3 = metadata_csv w1 \<and>
            trace w3 = trace w2 @ [Print_unhandled e])) \<and>
   (startup st = None \<and> page_range udb st a = ps @ q # rest \<and>
    (\<forall>e. rows_wait (pages st q) = Some e \<longrightarrow> is_timeout e) \<and>
    rows_found (pages st q) = Inr n \<and> k < n \<and> run_to udb st a ps q k w = Some w' \<and>
    process_row udb (row_queries (pages st q) k) q (int k) (dry_run a) w' = None \<longrightarrow>
      main udb st a w = None)"
proof (intro conjI impI)
  assume "main udb st a w = Some (w', x)"
  from main_processed[OF this] obtain D where "processed w w' D" by blast
  then show "covered w w'" by (rule processed_covered)
next
  assume "distinct (ps @ [q]) \<and> run_to udb st a ps q k w = Some w'"
  then have "\<exists>D. processed w w' D" by (intro run_to_processed[of udb st a ps q k]) simp_all
  then obtain D where "processed w w' D" ..
  then show "covered w w'" by (rule processed_covered)
next
  assume r: "process_row udb (row_queries pe i) p (int i) dry w1 = Some (w2, Inl e)"
  from process_row_raises_files(2)[OF r] show m: "metadata_csv w2 = metadata_csv w1" .
  from r m show "\<exists>w3. do_row udb pe p dry i w1 = Some w3 \<and> metadata_csv w3 = metadata_csv w1 \<and>
            trace w3 = trace w2 @ [Print_unhandled e]"
    by (simp add: do_row_def)
next
  assume "startup st = None \<and> page_range udb st a = ps @ q # rest \<and>
    (\<forall>e. rows_wait (pages st q) = Some e \<longrightarrow> is_timeout e) \<and>
    rows_found (pages st q) = Inr n \<and> k < n \<and> run_to udb st a ps q k w = Some w' \<and>
    process_row udb (row_queries (pages st q) k) q (int k) (dry_run a) w' = None"
  then show "main udb st a w = None" by (intro run_to_hangs[of st udb a ps q rest n k w w']) simp_all
qed

theorem metadata_coverage_witness:
  "(\<exists>w' ts ms m.
      main latin1_db (demo_site 1 (\<lambda>i. Inr [normal_env])) demo_args start_world = Some (w', None) \<and>
      trace w' = trace start_world @ ts \<and>
      file_rows (metadata_csv w') = file_rows (metadata_csv start_world) @ ms \<and>
      Print_row 1 0 (ascii ''success'') (ascii ''done'') \<in> set ts \<and>
      md_rows 1 0 ms = [m] \<and> md_api_url m = []) \<and>
   (\<exists>w1 ts ms m.
      run_to latin1_db hanging_site demo_args [] 1 1 start_world = Some w1 \<and>
      main latin1_db hanging_site demo_args start_world = None \<and>
      trace w1 = trace start_world @ ts \<and>
      file_rows (metadata_csv w1) = file_rows (metadata_csv start_world) @ ms \<and>
      Print_row 1 0 (ascii ''success'') (ascii ''done'') \<in> set ts \<and>
      md_rows 1 0 ms = [m] \<and> md_api_url m = [] \<and> md_rows 1 1 ms = [])"
proof (intro conjI)
  let ?st = "demo_site 1 (\<lambda>i. Inr [normal_env])"
  from run_normal obtain w' where
    m: "main latin1_db ?st demo_args start_world = Some (w', None)"
    and t: "Print_row 1 0 (ascii ''success'') (ascii ''done'') \<in> set (trace w')"
    by (cases "main latin1_db ?st demo_args start_world") auto
  from metadata_coverage[where udb = latin1_db and st = ?st and a = demo_args
      and w = start_world and w' = w' and x = None, THEN conjunct1] m
  have "covered start_world w'" by simp
  then obtain ts ms where g: "trace w' = trace start_world @ ts"
    "file_rows (metadata_csv w') = file_rows (metadata_csv start_world) @ ms"
    and each: "\<And>status nte. Print_row 1 0 status nte \<in> set ts \<Longrightarrow> writes_metadata status nte \<Longrightarrow>
      \<exists>m. md_rows 1 0 ms = [m] \<and> md_api_url m = [] \<and>
          (status \<noteq> ascii ''success'' \<longrightarrow> md_pdf_filename m = [])"
    unfolding covered_def by blast
  from t g(1) have mem: "Print_row 1 0 (ascii ''success'') (ascii ''done'') \<in> set ts"
    by (simp add: start_fields)
  from each[OF mem writes_metadata_outcomes(5)] obtain m where
    "md_rows 1 0 ms = [m]" "md_api_url m = []" by blast
  with m g mem show "\<exists>w' ts ms m.
      main latin1_db ?st demo_args start_world = Some (w', None) \<and>
      trace w' = trace start_world @ ts \<and>
      file_rows (metadata_csv w') = file_rows (metadata_csv start_world) @ ms \<and>
      Print_row 1 0 (ascii ''success'') (ascii ''done'') \<in> set ts \<and>
      md_rows 1 0 ms = [m] \<and> md_api_url m = []"
    by blast
next
  from run_hanging obtain w1 where
    r: "run_to latin1_db hanging_site demo_args [] 1 1 start_world = Some w1"
    and t: "trace w1 = [Trigger_clicked, Sleep 4000, Sleep 3000, Tmp_page_opened, Sleep 300, Sleep 300,
                    Sleep 300, Sleep 300, Pdf_rendered, Tmp_page_closed, Modal_close_clicked,
                    Sleep 120, Print_row 1 0 (ascii ''success'') (ascii ''done'')]"
    and h: "process_row latin1_db (row_queries (pages hanging_site 1) 1) 1 1 True w1 = None"
    by (cases "run_to latin1_db hanging_site demo_args [] 1 1 start_world") auto
  note inst = metadata_coverage[where udb = latin1_db and st = hanging_site and a = demo_args
      and w = start_world and w' = w1 and ps = "[]" and q = 1 and k = 1 and rest = "[]" and n = 2]
  from inst[THEN conjunct2, THEN conjunct1] r have "covered start_world w1" by simp
  then obtain ts ms where g: "trace w1 = trace start_world @ ts"
    "file_rows (metadata_csv w1) = file_rows (metadata_csv start_world) @ ms"
    and each: "\<And>status nte. Print_row 1 0 status nte \<in> set ts \<Longrightarrow> writes_metadata status nte \<Longrightarrow>
      \<exists>m. md_rows 1 0 ms = [m] \<and> md_api_url m = [] \<and>
          (status \<noteq> ascii ''success'' \<longrightarrow> md_pdf_filename m = [])"
    and silent: "(\<forall>status nte. Print_row 1 1 status nte \<notin> set ts) \<Longrightarrow> md_rows 1 1 ms = []"
    unfolding covered_def by blast
  from g(1) t have ts: "ts = [Trigger_clicked, Sleep 4000, Sleep 3000, Tmp_page_opened, Sleep 300,
      Sleep 300, Sleep 300, Sleep 300, Pdf_rendered, Tmp_page_closed, Modal_close_clicked,
      Sleep 120, Print_row 1 0 (ascii ''success'') (ascii ''done'')]"
    by (simp add: start_fields)
  then have mem: "Print_row 1 0 (ascii ''success'') (ascii ''done'') \<in> set ts" by simp
  from each[OF mem writes_metadata_outcomes(5)] obtain m where
    one: "md_rows 1 0 ms = [m]" "md_api_url m = []" by blast
  have none: "md_rows 1 1 ms = []" by (rule silent) (simp add: ts)
  have hang: "main latin1_db hanging_site demo_args start_world = None"
  proof (rule inst[THEN conjunct2, THEN conjunct2, THEN conjunct2, rule_format])
    show "startup hanging_site = None \<and> page_range latin1_db hanging_site demo_args = [] @ 1 # [] \<and>
      (\<forall>e. rows_wait (pages hanging_site 1) = Some e \<longrightarrow> is_timeout e) \<and>
      rows_found (pages hanging_site 1) = Inr 2 \<and> 1 < (2::nat) \<and>
      run_to latin1_db hanging_site demo_args [] 1 1 start_world = Some w1 \<and>
      process_row latin1_db (row_queries (pages hanging_site 1) 1) 1 (int 1) (dry_run demo_args) w1 = None"
      using r h by (simp add: hanging_site_def demo_site_def one_page_def page_range_def demo_args_def)
  qed
  from r hang g mem one none show "\<exists>w1 ts ms m.
      run_to latin1_db hanging_site demo_args [] 1 1 start_world = Some w1 \<and>
      main latin1_db hanging_site demo_args start_world = None \<and>
      trace w1 = trace start_world @ ts \<and>
      file_rows (metadata_csv w1) = file_rows (metadata_csv start_world) @ ms \<and>
      Print_row 1 0 (ascii ''success'') (ascii ''done'') \<in> set ts \<and>
      md_rows 1 0 ms = [m] \<and> md_api_url m = [] \<and> md_rows 1 1 ms = []"
    by blast
qed

text \<open>
  C3, as stated, fails on its example: on the measure sequence 10, 10, 10, 20, 20, 20,
  20 the counter of consecutive equal samples is not three at the sample of index 5,
  and the loop does not return after that sample.
\<close>

theorem stabilization_example_counterexample:
  "\<not> stable_at (\<lambda>i. [10, 10, 10, 20, 20, 20, 20] ! i) 5 \<and>
   (\<forall>v. wait_until_stable example_heights \<noteq> Some (v, Suc 5))"
  using example_returns example_not_stable_at_5 by simp

text \<open>
  C3, amended. The loop returns after the sample of index \<open>n\<close>, with the height of that
  sample, exactly when \<open>n\<close> is the first index where the counter of the specification
  (consecutive samples equal to the previous one, zero after any change) reaches
  three. On the example sequence that is the sample of index 6, the fourth 20.
\<close>

theorem stabilization_semantics:
  "(wait_until_stable (\<lambda>i. Inr (h i)) = Some (v, k)) =
     (\<exists>n. stable_at h n \<and> v = Inr (h n) \<and> k = Suc n) \<and>
   wait_until_stable example_heights = Some (Inr 20, Suc 6)"
proof (intro conjI iffI)
  assume r: "wait_until_stable (\<lambda>i. Inr (h i)) = Some (v, k)"
  then have "wait_until_stable (\<lambda>i. Inr (h i)) \<noteq> None" by simp
  then obtain n where "3 \<le> spec_counter h n" unfolding loop_returns_iff ..
  from first_stable[OF this] obtain m where m: "stable_at h m" by blast
  from loop_stable[OF m] r have "v = Inr (h m)" "k = Suc m" by simp_all
  with m show "\<exists>n. stable_at h n \<and> v = Inr (h n) \<and> k = Suc n" by blast
next
  assume "\<exists>n. stable_at h n \<and> v = Inr (h n) \<and> k = Suc n"
  then show "wait_until_stable (\<lambda>i. Inr (h i)) = Some (v, k)" using loop_stable by auto
next
  show "wait_until_stable example_heights = Some (Inr 20, Suc 6)" using example_returns by simp
qed

theorem stabilization_semantics_witness:
  "stable_at (\<lambda>i. 0) 2 \<and> wait_until_stable (\<lambda>i. Inr 0) = Some (Inr 0, 3)"
proof -
  have s: "stable_at (\<lambda>i. 0) 2"
    unfolding stable_at_def by (simp add: eval_nat_numeral All_less_Suc)
  then have "\<exists>n. stable_at (\<lambda>i. 0) n \<and> Inr 0 = (Inr ((\<lambda>i. 0) n) :: exn + int) \<and> (3::nat) = Suc n"
    by (intro exI[of _ 2]) simp
  with stabilization_semantics[of "\<lambda>i. 0" "Inr 0" 3] s show ?thesis by simp
qed

text \<open>
  C4 does not hold of the code. The polling loop has no timeout: when the measured
  height alternates between 100 and 200 the loop never returns, and neither does
  \<open>process_row\<close> on a row whose temporary page behaves so.
\<close>

theorem stabilization_wait_never_returns:
  "wait_until_stable (\<lambda>i. Inr (if even i then 100 else 200)) = None \<and>
   process_row latin1_db (Inr [unstable_env]) 1 0 False start_world = None"
proof -
  have "process_row latin1_db (Inr [unstable_env]) 1 0 False start_world = None"
    by (simp add: run_defs eval_simps unstable_env_def alternating_diverges)
  with alternating_diverges show ?thesis by simp
qed

text \<open>
  C5 does not hold of the code. On a row whose temporary page raises when it is
  printed, \<open>process_row\<close> returns \<^verbatim>\<open>("error", "done")\<close> after it has opened the
  temporary page and without having closed it.
\<close>

theorem tmp_page_left_open:
  "(case process_row latin1_db (Inr [failing_env]) 1 0 False start_world of
      None \<Rightarrow> False
    | Some (w', res) \<Rightarrow> res = Inr (ascii ''error'', ascii ''done'') \<and>
        Tmp_page_opened \<in> set (trace w') \<and> Tmp_page_closed \<notin> set (trace w'))"
  by (simp add: run_defs eval_simps failing_env_def)

text \<open>
  C6 does not hold of the code. On a row whose trigger was clicked and whose normal
  modal does not appear within the bound, \<open>process_row\<close> returns
  \<^verbatim>\<open>("error", "modal_not_visible")\<close> right after the click: nothing is done to
  dismiss a surface and the pacing delay of \<open>ROW_DELAY\<close> is not slept.
\<close>

theorem early_error_skips_pacing:
  "(case process_row latin1_db (Inr [no_modal_env]) 1 0 False start_world of
      None \<Rightarrow> False
    | Some (w', res) \<Rightarrow> res = Inr (ascii ''error'', ascii ''modal_not_visible'') \<and>
        trace w' = [Trigger_clicked])"
  by (simp add: run_defs eval_simps no_modal_env_def)



text \<open>
  C8 does not hold of the code. A run with the dry-run flag set, over one page with one
  normal row, writes the captured bytes to the output directory; the flag changes
  nothing in \<open>process_row\<close>.
\<close>

theorem dry_run_writes_pdf:
  "dry_run demo_args \<and>
   (case main latin1_db (demo_site 1 (\<lambda>i. Inr [normal_env])) demo_args start_world of
      None \<Rightarrow> False
    | Some (w', x) \<Rightarrow> x = None \<and>
        out_files w' (ascii ''rnpdno_pdfs/Ana_F1.pdf'') = Some [37, 80, 68, 70]) \<and>
   process_row udb q page_num row_idx True w = process_row udb q page_num row_idx False w"
proof (intro conjI)
  show "dry_run demo_args" by (simp add: demo_args_def)
  show "case main latin1_db (demo_site 1 (\<lambda>i. Inr [normal_env])) demo_args start_world of
      None \<Rightarrow> False
    | Some (w', x) \<Rightarrow> x = None \<and>
        out_files w' (ascii ''rnpdno_pdfs/Ana_F1.pdf'') = Some [37, 80, 68, 70]"
    using run_normal
    by (cases "main latin1_db (demo_site 1 (\<lambda>i. Inr [normal_env])) demo_args start_world") auto
  show "process_row udb q page_num row_idx True w = process_row udb q page_num row_idx False w"
    by (simp add: process_row_def)
qed

text \<open>
  C9. Sanitization, for a maximal length that is not negative: the result has the
  length of the input cut at the maximal length, and each of its characters is the
  character of the input at the same place when that is a letter or a digit (an
  alphanumeric character, as \<^verbatim>\<open>\w\<close> reads it), \<^verbatim>\<open>-\<close>,
  \<^verbatim>\<open>_\<close>, \<^verbatim>\<open>.\<close> or a space, and \<^verbatim>\<open>_\<close> otherwise. On the example of the
  specification (code points 237 and 233 are the accented letters, alphanumeric in the
  character database) the slash and the star become \<^verbatim>\<open>_\<close> and everything else is
  kept.
\<close>

theorem sanitize_filename_spec:
  "0 \<le> maxlen \<Longrightarrow>
   length (sanitize_filename udb s maxlen) = min (length s) (nat maxlen) \<and>
   (\<forall>i < length (sanitize_filename udb s maxlen).
      sanitize_filename udb s maxlen ! i =
        (if py_isalnum udb (s ! i) \<or> s ! i = 45 \<or> s ! i = 95 \<or> s ! i = 46 \<or> s ! i = 32
         then s ! i else 95)) \<and>
   (uc_alnum udb 237 \<and> uc_alnum udb 233 \<longrightarrow>
      sanitize_filename udb (ascii ''Mar'' @ [237] @ ascii ''a/P'' @ [233] @ ascii ''rez*2024'') 120 =
        ascii ''Mar'' @ [237] @ ascii ''a_P'' @ [233] @ ascii ''rez_2024'')"
proof (intro conjI impI allI)
  assume m: "0 \<le> maxlen"
  show "length (sanitize_filename udb s maxlen) = min (length s) (nat maxlen)"
    using m by (simp add: sanitize_filename_def py_slice_to_def min_def)
  show "sanitize_filename udb s maxlen ! i =
        (if py_isalnum udb (s ! i) \<or> s ! i = 45 \<or> s ! i = 95 \<or> s ! i = 46 \<or> s ! i = 32
         then s ! i else 95)"
    if "i < length (sanitize_filename udb s maxlen)" for i
    using m that by (auto simp: sanitize_filename_def py_slice_to_def keep_char_def)
  assume "uc_alnum udb 237 \<and> uc_alnum udb 233"
  then show "sanitize_filename udb (ascii ''Mar'' @ [237] @ ascii ''a/P'' @ [233] @ ascii ''rez*2024'') 120 =
        ascii ''Mar'' @ [237] @ ascii ''a_P'' @ [233] @ ascii ''rez_2024''"
    by (simp add: sanitize_filename_def py_slice_to_def keep_char_def py_isalnum_def ascii_def
          ascii_letter_def ascii_digit_def)
qed

theorem sanitize_filename_spec_witness:
  "(0::int) \<le> 120 \<and>
   sanitize_filename latin1_db (ascii ''Mar'' @ [237] @ ascii ''a/P'' @ [233] @ ascii ''rez*2024'') 120 =
     ascii ''Mar'' @ [237] @ ascii ''a_P'' @ [233] @ ascii ''rez_2024'' \<and>
   length (sanitize_filename latin1_db (ascii ''a?b'') 2) = 2"
  using sanitize_filename_spec [of 120 latin1_db "[]"] sanitize_filename_spec [of 2 latin1_db "ascii ''a?b''"]
  by (simp add: latin1_db_def ascii_def)

text \<open>
  C10, as stated, fails: \<open>already_done\<close> raises on some contents of the ledger file.
  On the ledger made of the header and of the entry of an unhandled exception with a
  message of 131063 characters, a file that \<^verbatim>\<open>append_log\<close> writes, the reader
  raises its \<^verbatim>\<open>Error\<close> (field larger than field limit) at the second row, and the
  scan for the key (1, 1) is left with that exception. On a file whose first byte is
  \<^verbatim>\<open>0xff\<close> the first step of the reading raises \<^verbatim>\<open>UnicodeDecodeError\<close>, and so does
  the scan. With the first ledger in the state, \<open>process_row\<close> for the item (1, 1) is
  left with the exception of the reader.
\<close>

theorem resume_scan_raises_counterexample:
  "already_done latin1_db (read_log long_ledger) 1 1 = Inl field_too_large \<and>
   already_done latin1_db (Some [Inl undecodable]) 1 1 = Inl undecodable \<and>
   process_row latin1_db (Inr [normal_env, normal_env]) 1 1 False
       (start_world\<lparr>log_csv := long_ledger\<rparr>) =
     Some (start_world\<lparr>log_csv := long_ledger\<rparr>, Inl field_too_large)"
  using long_ledger_raises by (simp add: already_done_def process_row_def)

text \<open>
  C10, amended. When the reader delivers every row of the ledger file (the file is
  UTF-8 text and no field is longer than 131072 characters), \<open>already_done\<close> returns
  a truth value and does not raise, and it returns \<open>False\<close> when the file does not
  exist. Whatever the reader delivers, a row with fewer than 7 fields, or whose first
  field is not made of digits, is ignored: the scan gives the same answer with the row
  and without it; the header row that \<^verbatim>\<open>init_logs\<close> writes is such a row. When the
  reading raises after it has delivered some rows, \<open>already_done\<close> returns \<open>True\<close>
  if one of these rows is a success for the key, and otherwise raises the exception of
  the reading.
\<close>

theorem already_done_total:
  "(\<exists>b. already_done udb (map_option (map Inr) lg) page_num row_idx = Inr b) \<and>
   (list_all fits (file_rows lg) \<longrightarrow> (\<exists>b. already_done udb (read_log lg) page_num row_idx = Inr b)) \<and>
   already_done udb None page_num row_idx = Inr False \<and>
   already_done udb (read_log None) page_num row_idx = Inr False \<and>
   (length r < 7 \<or> \<not> py_isdigit udb (r ! 0) \<longrightarrow>
      already_done udb (Some (xs @ Inr r # ys)) page_num row_idx =
      already_done udb (Some (xs @ ys)) page_num row_idx) \<and>
   already_done udb (Some (Inr log_header # xs)) page_num row_idx =
     already_done udb (Some xs) page_num row_idx \<and>
   already_done udb (Some (map Inr rows @ Inl e # ys)) page_num row_idx =
     (if \<exists>row\<in>set rows. success_row udb page_num row_idx row then Inr True else Inl e)"
proof (intro conjI impI)
  show "\<exists>b. already_done udb (map_option (map Inr) lg) page_num row_idx = Inr b"
    by (cases lg) (auto simp: already_done_def scan_log_rows)
  show "\<exists>b. already_done udb (read_log lg) page_num row_idx = Inr b"
    if "list_all fits (file_rows lg)"
    using that by (auto simp: already_done_read)
  show "already_done udb None page_num row_idx = Inr False"
    by (simp add: already_done_def)
  show "already_done udb (read_log None) page_num row_idx = Inr False"
    by (simp add: already_done_def read_log_def)
  show "already_done udb (Some (Inr log_header # xs)) page_num row_idx =
        already_done udb (Some xs) page_num row_idx"
    using scan_log_skip[of udb page_num row_idx log_header "[]" xs]
    by (simp add: already_done_def success_row_header)
  show "already_done udb (Some (map Inr rows @ Inl e # ys)) page_num row_idx =
     (if \<exists>row\<in>set rows. success_row udb page_num row_idx row then Inr True else Inl e)"
    by (simp add: already_done_def scan_log_append)
next
  assume "length r < 7 \<or> \<not> py_isdigit udb (r ! 0)"
  then have "\<not> success_row udb page_num row_idx r"
    by (auto simp: success_row_def)
  then show "already_done udb (Some (xs @ Inr r # ys)) page_num row_idx =
             already_done udb (Some (xs @ ys)) page_num row_idx"
    by (simp add: already_done_def scan_log_skip)
qed

theorem already_done_total_witness:
  "length [ascii ''3'', ascii ''2''] < 7 \<and>
   list_all fits (file_rows (Some [log_header, [ascii ''3'', ascii ''2'']])) \<and>
   already_done latin1_db (read_log (Some [log_header, [ascii ''3'', ascii ''2'']])) 3 2 = Inr False \<and>
   already_done latin1_db (Some ([Inr log_header] @ Inr [ascii ''3'', ascii ''2''] # [])) 3 2 = Inr False"
proof -
  have short: "\<not> success_row latin1_db 3 2 [ascii ''3'', ascii ''2'']"
    by (simp add: success_row_def)
  have fits2: "fits [ascii ''3'', ascii ''2'']"
    by (simp add: fits_def field_size_limit_def)
  have fit: "list_all fits (file_rows (Some [log_header, [ascii ''3'', ascii ''2'']]))"
    by (simp add: fits_header fits2)
  from already_done_total [where udb = latin1_db and lg = "Some [log_header, [ascii ''3'', ascii ''2'']]"
      and page_num = 3 and row_idx = 2, THEN conjunct2, THEN conjunct1] fit
  obtain b where b: "already_done latin1_db (read_log (Some [log_header, [ascii ''3'', ascii ''2'']])) 3 2 = Inr b"
    by blast
  have "already_done latin1_db (read_log (Some [log_header, [ascii ''3'', ascii ''2'']])) 3 2 = Inr False"
    by (simp add: already_done_read rows_read_def fits_header fits2 success_row_header short)
  with b have 1: "already_done latin1_db (read_log (Some [log_header, [ascii ''3'', ascii ''2'']])) 3 2 = Inr False"
    by simp
  have 2: "already_done latin1_db (Some ([Inr log_header] @ Inr [ascii ''3'', ascii ''2''] # [])) 3 2 = Inr False"
    using already_done_total [where udb = latin1_db and page_num = 3 and row_idx = 2
        and r = "[ascii ''3'', ascii ''2'']" and xs = "[Inr log_header]" and ys = "[]"]
      scan_log_skip[of latin1_db 3 2 log_header "[]" "[]"]
    by (simp add: already_done_def success_row_header)
  from fit 1 2 show ?thesis by simp
qed

end
